theory Spec2Isabelle
  imports Complex_Main
begin

section \<open>Numbers, vectors and the random source\<close>

text \<open>
  The values of the model are real numbers. A JavaScript number is an IEEE double and a cell
  of a \<^verbatim>\<open>Float32Array\<close> holds a float: \<open>f64\<close> and \<open>f32\<close> below round a real to the nearest
  double and to the nearest float. The matrix rain, the speed limit of the swarm and every
  store of these two loops into a buffer are modelled with their rounding, operation by
  operation, because the statements about them are about the values that end up in the
  cells. The remaining arithmetic (the data storm, the mouse gravity, the sums and forces of
  the flocking) is exact in the model: the statements about it say which operation is applied
  to which particles. A \<^verbatim>\<open>THREE.Vector3\<close> is a triple of reals.
\<close>

type_synonym vec3 = "real \<times> real \<times> real"

abbreviation vec_x :: "vec3 \<Rightarrow> real" where "vec_x v \<equiv> fst v"
abbreviation vec_y :: "vec3 \<Rightarrow> real" where "vec_y v \<equiv> fst (snd v)"
abbreviation vec_z :: "vec3 \<Rightarrow> real" where "vec_z v \<equiv> snd (snd v)"

text \<open>\<^verbatim>\<open>Vector3.length()\<close>, \<^verbatim>\<open>a.distanceTo(b)\<close>, \<^verbatim>\<open>a.dot(b)\<close>.\<close>

definition vec_length :: "vec3 \<Rightarrow> real" where
  "vec_length v = sqrt (vec_x v * vec_x v + vec_y v * vec_y v + vec_z v * vec_z v)"

definition distanceTo :: "vec3 \<Rightarrow> vec3 \<Rightarrow> real" where
  "distanceTo a b =
     (let dx = vec_x a - vec_x b; dy = vec_y a - vec_y b; dz = vec_z a - vec_z b
      in sqrt (dx * dx + dy * dy + dz * dz))"

definition dot :: "vec3 \<Rightarrow> vec3 \<Rightarrow> real" where
  "dot a b = vec_x a * vec_x b + vec_y a * vec_y b + vec_z a * vec_z b"

text \<open>
  Rounding to nearest, ties to even. A nonzero \<open>x\<close> whose absolute value lies between
  \<open>2 powi e\<close> and \<open>2 powi (e + 1)\<close> is rounded to a multiple of \<open>2 powi (e - p + 1)\<close>, the
  spacing of the numbers with \<open>p\<close> significant bits in that range: \<open>p = 53\<close> for a double,
  \<open>p = 24\<close> for a float. The exponent is not bounded: overflow to infinity, subnormal numbers
  and NaN are outside the model. In the rounded parts of the model the literals \<^verbatim>\<open>0.5\<close>,
  \<^verbatim>\<open>5\<close>, \<^verbatim>\<open>10\<close>, \<^verbatim>\<open>15\<close> and \<^verbatim>\<open>20\<close> are written as they are, being doubles, and a literal
  such as \<^verbatim>\<open>0.03\<close> is written \<open>f64 0.03\<close>, the double that it denotes.
\<close>

definition round_even :: "real \<Rightarrow> int" where
  "round_even t =
     (let f = \<lfloor>t\<rfloor>; r = t - of_int f
      in if r < 1 / 2 then f else if r > 1 / 2 then f + 1 else if even f then f else f + 1)"

definition round_to :: "nat \<Rightarrow> real \<Rightarrow> real" where
  "round_to p x =
     (if x = 0 then 0
      else let u = 2 powi (\<lfloor>log 2 \<bar>x\<bar>\<rfloor> - int p + 1)
           in of_int (round_even (x / u)) * u)"

definition f64 :: "real \<Rightarrow> real" where "f64 = round_to 53"

definition f32 :: "real \<Rightarrow> real" where "f32 = round_to 24"

text \<open>
  \<^verbatim>\<open>Math.random()\<close>: the values it will return are a sequence \<open>R\<close>, and a counter says how
  many of them have been drawn. Every call returns \<open>R k\<close> and moves the counter to \<open>k + 1\<close>.
  The values of the real function lie in \<open>[0, 1)\<close>.
\<close>

type_synonym rng = "nat \<Rightarrow> real"

definition unit_interval :: "rng \<Rightarrow> bool" where
  "unit_interval R = (\<forall>k. 0 \<le> R k \<and> R k < 1)"

section \<open>Loops over buffers\<close>

text \<open>
  \<^verbatim>\<open>for (let i = start; i < n; i += 3) body\<close>, the loop over a flat buffer of triples, and
  \<^verbatim>\<open>for (let i = start; i < n; i++) body\<close>. The bound is fixed during the loop (a typed
  array never changes its length, and no loop body below changes the bound it runs to).
\<close>

function for3 :: "(nat \<Rightarrow> 'a \<Rightarrow> 'a) \<Rightarrow> nat \<Rightarrow> nat \<Rightarrow> 'a \<Rightarrow> 'a" where
  "for3 body i n \<sigma> = (if i < n then for3 body (i + 3) n (body i \<sigma>) else \<sigma>)"
  by pat_completeness auto
termination
  by (relation "measure (\<lambda>(body, i, n, \<sigma>). n - i)") auto

function for1 :: "(nat \<Rightarrow> 'a \<Rightarrow> 'a) \<Rightarrow> nat \<Rightarrow> nat \<Rightarrow> 'a \<Rightarrow> 'a" where
  "for1 body i n \<sigma> = (if i < n then for1 body (i + 1) n (body i \<sigma>) else \<sigma>)"
  by pat_completeness auto
termination
  by (relation "measure (\<lambda>(body, i, n, \<sigma>). n - i)") auto

declare for3.simps [simp del]
declare for1.simps [simp del]

section \<open>Particle animation (\<^verbatim>\<open>animateParticles\<close>, \<^verbatim>\<open>applyMouseGravity\<close>)\<close>

text \<open>
  The position and velocity buffers are flat arrays: particle \<open>p\<close> owns the cells
  \<open>3p\<close>, \<open>3p + 1\<close>, \<open>3p + 2\<close>. \<^verbatim>\<open>createParticlesForPreset\<close> allocates both with
  \<^verbatim>\<open>particleCount * 3\<close> cells.
\<close>

subsection \<open>Matrix rain\<close>

text \<open>
  The body of the loop of \<^verbatim>\<open>case 'matrix'\<close>; the state of the loop is the position buffer
  and the number of random values drawn. \<open>velocities\<close> is \<open>None\<close> when the geometry has no
  velocity attribute. Every operation yields a double and every store a float; the test
  reads the cell that has just been stored.
\<close>

definition matrix_body :: "rng \<Rightarrow> real list option \<Rightarrow> nat \<Rightarrow> real list \<times> nat \<Rightarrow> real list \<times> nat" where
  "matrix_body R velocities i = (\<lambda>(positions, k).
     let positions = positions[i + 1 := f32 (f64 (positions ! (i + 1) +
                        (case velocities of Some v \<Rightarrow> v ! (i + 1) | None \<Rightarrow> - f64 0.03)))]
     in if positions ! (i + 1) < - 10 then
          let positions = positions[i + 1 := f32 15];
              positions = positions[i := f32 (f64 (f64 (R k - 0.5) * 20))];
              positions = positions[i + 2 := f32 (f64 (f64 (R (k + 1) - 0.5) * 20))]
          in (positions, k + 2)
        else (positions, k))"

definition matrix_loop :: "rng \<Rightarrow> real list option \<Rightarrow> real list \<times> nat \<Rightarrow> real list \<times> nat" where
  "matrix_loop R velocities = (\<lambda>(positions, k).
     for3 (matrix_body R velocities) 0 (length positions) (positions, k))"

subsection \<open>Data storm\<close>

text \<open>
  The body of the loop of \<^verbatim>\<open>case 'storm'\<close>, inside \<^verbatim>\<open>if (velocities)\<close>; the state of the
  loop is the position buffer, the velocity buffer and the number of random values drawn.
\<close>

definition storm_body :: "rng \<Rightarrow> nat \<Rightarrow> real list \<times> real list \<times> nat \<Rightarrow> real list \<times> real list \<times> nat" where
  "storm_body R i = (\<lambda>(positions, velocities, k).
     let positions = positions[i := positions ! i + velocities ! i];
         positions = positions[i + 1 := positions ! (i + 1) + velocities ! (i + 1)];
         positions = positions[i + 2 := positions ! (i + 2) + velocities ! (i + 2)];
         radius = sqrt ((positions ! i)\<^sup>2 + (positions ! (i + 1))\<^sup>2 + (positions ! (i + 2))\<^sup>2);
         velocities =
           (if radius > 15 then
              let velocities = velocities[i := velocities ! i * (- 0.8)];
                  velocities = velocities[i + 1 := velocities ! (i + 1) * (- 0.8)];
                  velocities = velocities[i + 2 := velocities ! (i + 2) * (- 0.8)]
              in velocities
            else velocities);
         velocities = velocities[i := velocities ! i + (R k - 0.5) * 0.001];
         velocities = velocities[i + 1 := velocities ! (i + 1) + (R (k + 1) - 0.5) * 0.001];
         velocities = velocities[i + 2 := velocities ! (i + 2) + (R (k + 2) - 0.5) * 0.001]
     in (positions, velocities, k + 3))"

definition storm_loop :: "rng \<Rightarrow> real list option \<Rightarrow> real list \<times> nat \<Rightarrow> real list \<times> real list option \<times> nat" where
  "storm_loop R velocities = (\<lambda>(positions, k).
     case velocities of
       None \<Rightarrow> (positions, None, k)
     | Some vel \<Rightarrow>
         (case for3 (storm_body R) 0 (length positions) (positions, vel, k) of
            (positions', vel', k') \<Rightarrow> (positions', Some vel', k')))"

subsection \<open>Swarm (boids)\<close>

definition perceptionRadius :: real where "perceptionRadius = 3"
definition separationDist :: real where "separationDist = 1"
definition maxSpeed :: real where "maxSpeed = 0.03"
definition maxForce :: real where "maxForce = 0.001"

text \<open>The twelve accumulators of the neighbour loop.\<close>

record flock =
  sepX :: real
  sepY :: real
  sepZ :: real
  sepCount :: nat
  alignX :: real
  alignY :: real
  alignZ :: real
  alignCount :: nat
  cohX :: real
  cohY :: real
  cohZ :: real
  cohCount :: nat

definition flock0 :: flock where
  "flock0 = \<lparr> sepX = 0, sepY = 0, sepZ = 0, sepCount = 0,
              alignX = 0, alignY = 0, alignZ = 0, alignCount = 0,
              cohX = 0, cohY = 0, cohZ = 0, cohCount = 0 \<rparr>"

text \<open>The body of the inner loop over \<open>j\<close> (\<^verbatim>\<open>// Check neighbors\<close>), for the particle at \<open>i\<close>.\<close>

definition neighbor_body ::
  "nat \<Rightarrow> real \<Rightarrow> real \<Rightarrow> real \<Rightarrow> real list \<Rightarrow> real list \<Rightarrow> nat \<Rightarrow> flock \<Rightarrow> flock" where
  "neighbor_body i px py pz positions velocities j acc =
     (if i = j then acc
      else
        let dx = positions ! j - px;
            dy = positions ! (j + 1) - py;
            dz = positions ! (j + 2) - pz;
            dist = sqrt (dx * dx + dy * dy + dz * dz)
        in if dist < perceptionRadius \<and> dist > 0 then
             let acc = (if dist < separationDist then
                          acc\<lparr> sepX := sepX acc - dx / dist,
                               sepY := sepY acc - dy / dist,
                               sepZ := sepZ acc - dz / dist,
                               sepCount := sepCount acc + 1 \<rparr>
                        else acc)
             in acc\<lparr> alignX := alignX acc + velocities ! j,
                     alignY := alignY acc + velocities ! (j + 1),
                     alignZ := alignZ acc + velocities ! (j + 2),
                     alignCount := alignCount acc + 1,
                     cohX := cohX acc + positions ! j,
                     cohY := cohY acc + positions ! (j + 1),
                     cohZ := cohZ acc + positions ! (j + 2),
                     cohCount := cohCount acc + 1 \<rparr>
           else acc)"

definition neighbors :: "nat \<Rightarrow> real list \<Rightarrow> real list \<Rightarrow> flock" where
  "neighbors i positions velocities =
     for3 (neighbor_body i (positions ! i) (positions ! (i + 1)) (positions ! (i + 2))
             positions velocities) 0 (length positions) flock0"

text \<open>\<^verbatim>\<open>// Apply forces\<close> and \<^verbatim>\<open>// Soft boundary\<close>: the velocity before the speed limit.\<close>

definition apply_forces :: "flock \<Rightarrow> vec3 \<Rightarrow> vec3 \<Rightarrow> vec3" where
  "apply_forces acc p v =
     (let px = vec_x p; py = vec_y p; pz = vec_z p;
          vx = vec_x v; vy = vec_y v; vz = vec_z v;
          (vx, vy, vz) =
            (if sepCount acc > 0 then
               (vx + (sepX acc / real (sepCount acc)) * maxForce * 2,
                vy + (sepY acc / real (sepCount acc)) * maxForce * 2,
                vz + (sepZ acc / real (sepCount acc)) * maxForce * 2)
             else (vx, vy, vz));
          (vx, vy, vz) =
            (if alignCount acc > 0 then
               (vx + ((alignX acc / real (alignCount acc)) - vx) * maxForce,
                vy + ((alignY acc / real (alignCount acc)) - vy) * maxForce,
                vz + ((alignZ acc / real (alignCount acc)) - vz) * maxForce)
             else (vx, vy, vz));
          (vx, vy, vz) =
            (if cohCount acc > 0 then
               let targetX = cohX acc / real (cohCount acc) - px;
                   targetY = cohY acc / real (cohCount acc) - py;
                   targetZ = cohZ acc / real (cohCount acc) - pz
               in (vx + targetX * maxForce * 0.5,
                   vy + targetY * maxForce * 0.5,
                   vz + targetZ * maxForce * 0.5)
             else (vx, vy, vz));
          distFromCenter = sqrt (px * px + py * py + pz * pz)
      in if distFromCenter > 18 then
           (vx - px * 0.0003, vy - py * 0.0003, vz - pz * 0.0003)
         else (vx, vy, vz))"

text \<open>
  \<^verbatim>\<open>// Limit speed\<close>, in double arithmetic: every product, sum, square root and quotient is
  rounded to a double, and \<^verbatim>\<open>maxSpeed\<close> is the double \<open>f64 0.03\<close>.
\<close>

definition limit_speed :: "vec3 \<Rightarrow> vec3" where
  "limit_speed v =
     (let vx = vec_x v; vy = vec_y v; vz = vec_z v;
          speed = f64 (sqrt (f64 (f64 (f64 (vx * vx) + f64 (vy * vy)) + f64 (vz * vz))))
      in if speed > f64 maxSpeed then
           (f64 (f64 (vx / speed) * f64 maxSpeed), f64 (f64 (vy / speed) * f64 maxSpeed),
            f64 (f64 (vz / speed) * f64 maxSpeed))
         else (vx, vy, vz))"

text \<open>
  The body of the outer loop of \<^verbatim>\<open>case 'swarm'\<close>. It updates both buffers in place, so
  the particles after \<open>i\<close> see the new position and velocity of the particle at \<open>i\<close>. The
  velocity cells receive the floats nearest to \<^verbatim>\<open>vx\<close>, \<^verbatim>\<open>vy\<close>, \<^verbatim>\<open>vz\<close>; the position cells
  receive the floats nearest to the double sums of the old cell and \<^verbatim>\<open>vx\<close>, \<^verbatim>\<open>vy\<close>, \<^verbatim>\<open>vz\<close>.
\<close>

definition swarm_body :: "nat \<Rightarrow> real list \<times> real list \<Rightarrow> real list \<times> real list" where
  "swarm_body i = (\<lambda>(positions, velocities).
     let p = (positions ! i, positions ! (i + 1), positions ! (i + 2));
         v = (velocities ! i, velocities ! (i + 1), velocities ! (i + 2));
         acc = neighbors i positions velocities;
         (vx, vy, vz) = limit_speed (apply_forces acc p v);
         velocities = velocities[i := f32 vx];
         velocities = velocities[i + 1 := f32 vy];
         velocities = velocities[i + 2 := f32 vz];
         positions = positions[i := f32 (f64 (positions ! i + vx))];
         positions = positions[i + 1 := f32 (f64 (positions ! (i + 1) + vy))];
         positions = positions[i + 2 := f32 (f64 (positions ! (i + 2) + vz))]
     in (positions, velocities))"

definition swarm_loop :: "real list \<times> real list \<Rightarrow> real list \<times> real list" where
  "swarm_loop = (\<lambda>(positions, velocities).
     for3 swarm_body 0 (length positions) (positions, velocities))"

subsection \<open>Mouse gravity\<close>

definition mouseGravityStrength :: real where "mouseGravityStrength = 0.5"

definition gravity_body :: "vec3 \<Rightarrow> nat \<Rightarrow> real list \<Rightarrow> real list" where
  "gravity_body mouseWorld i positions =
     (let dx = vec_x mouseWorld - positions ! i;
          dy = vec_y mouseWorld - positions ! (i + 1);
          dz = vec_z mouseWorld - positions ! (i + 2);
          dist = sqrt (dx * dx + dy * dy + dz * dz)
      in if dist < 5 \<and> dist > 0.1 then
           let force = mouseGravityStrength * 0.01 / (dist * dist);
               positions = positions[i := positions ! i + dx * force];
               positions = positions[i + 1 := positions ! (i + 1) + dy * force];
               positions = positions[i + 2 := positions ! (i + 2) + dz * force]
           in positions
         else positions)"

definition gravity_loop :: "vec3 \<Rightarrow> real list \<Rightarrow> real list" where
  "gravity_loop mouseWorld positions =
     for3 (gravity_body mouseWorld) 0 (length positions) positions"

section \<open>Scene state\<close>

text \<open>
  Every \<^verbatim>\<open>THREE.Object3D\<close> (mesh, line, points, light) has an identity; the model gives each a
  number when it is constructed. \<^verbatim>\<open>indexOf\<close>, \<^verbatim>\<open>scene.add\<close> and \<^verbatim>\<open>scene.remove\<close> compare
  identities.
\<close>

type_synonym oid = nat

datatype js_error = TypeError

datatype completion = Normal | Throw js_error

record preset =
  preset_name :: string
  particleCount :: nat
  particleSize :: real
  particleSpeed :: real
  preset_nodeCount :: nat
  preset_connectionDistance :: real
  primary :: nat
  secondary :: nat
  accent :: nat

definition VIZ_PRESETS :: "(string \<times> preset) list" where
  "VIZ_PRESETS =
     [(''neural'', \<lparr> preset_name = ''Neural Network'', particleCount = 500, particleSize = 0.03,
         particleSpeed = 0.0002, preset_nodeCount = 80, preset_connectionDistance = 3.5,
         primary = 0x02d7f2, secondary = 0xff00aa, accent = 0xffeb0b \<rparr>),
      (''storm'', \<lparr> preset_name = ''Data Storm'', particleCount = 2000, particleSize = 0.02,
         particleSpeed = 0.003, preset_nodeCount = 40, preset_connectionDistance = 2.5,
         primary = 0xff00aa, secondary = 0xffeb0b, accent = 0x02d7f2 \<rparr>),
      (''constellation'', \<lparr> preset_name = ''Constellation'', particleCount = 300, particleSize = 0.05,
         particleSpeed = 0.0001, preset_nodeCount = 50, preset_connectionDistance = 5,
         primary = 0xffffff, secondary = 0x02d7f2, accent = 0xffeb0b \<rparr>),
      (''swarm'', \<lparr> preset_name = ''Swarm Intelligence'', particleCount = 200, particleSize = 0.06,
         particleSpeed = 0.008, preset_nodeCount = 30, preset_connectionDistance = 4,
         primary = 0x00ff88, secondary = 0x02d7f2, accent = 0xff00aa \<rparr>),
      (''matrix'', \<lparr> preset_name = ''Matrix Rain'', particleCount = 1000, particleSize = 0.025,
         particleSpeed = 0.002, preset_nodeCount = 60, preset_connectionDistance = 3,
         primary = 0x00ff00, secondary = 0x00aa00, accent = 0xffffff \<rparr>)]"

text \<open>
  \<^verbatim>\<open>VIZ_PRESETS[key]\<close> is a property read on an object literal. JavaScript looks the key up
  among the object's own properties and then along its prototype chain, so the names of
  \<^verbatim>\<open>Object.prototype\<close> are found too: they yield a function (or, for \<^verbatim>\<open>__proto__\<close>, the
  prototype object), a truthy value with none of a preset's properties. Any other key
  yields \<^verbatim>\<open>undefined\<close>.
\<close>

definition Object_prototype_keys :: "string list" where
  "Object_prototype_keys =
     [''constructor'', ''__defineGetter__'', ''__defineSetter__'', ''hasOwnProperty'',
      ''__lookupGetter__'', ''__lookupSetter__'', ''isPrototypeOf'', ''propertyIsEnumerable'',
      ''toString'', ''valueOf'', ''__proto__'', ''toLocaleString'']"

datatype property = Undefined | Own preset | Inherited

definition VIZ_PRESETS_get :: "string \<Rightarrow> property" where
  "VIZ_PRESETS_get key =
     (case map_of VIZ_PRESETS key of
        Some p \<Rightarrow> Own p
      | None \<Rightarrow> if key \<in> set Object_prototype_keys then Inherited else Undefined)"

text \<open>
  \<^verbatim>\<open>CONFIG\<close>. \<^verbatim>\<open>nodeCount\<close> and \<^verbatim>\<open>connectionDistance\<close> are assigned from a looked-up preset
  and can become \<^verbatim>\<open>undefined\<close> (\<open>None\<close>).
\<close>

record config =
  nodeCount :: "nat option"
  connectionDistance :: "real option"
  nodeSize :: real
  coreSize :: real
  fieldSize :: real
  rotationSpeed :: real
  pulseSpeed :: real
  cyan :: nat
  magenta :: nat
  yellow :: nat
  white :: nat
  background :: nat

definition CONFIG_initial :: config where
  "CONFIG_initial = \<lparr> nodeCount = Some 80, connectionDistance = Some 3.5, nodeSize = 0.08,
     coreSize = 0.15, fieldSize = 8, rotationSpeed = 0.0003, pulseSpeed = 0.02,
     cyan = 0x02d7f2, magenta = 0xff00aa, yellow = 0xffeb0b, white = 0xffffff,
     background = 0x000008 \<rparr>"

text \<open>A node mesh with its \<^verbatim>\<open>userData\<close>; \<open>scale\<close> is the uniform scale (\<^verbatim>\<open>scale.x\<close>).\<close>

record node =
  node_id :: oid
  position :: vec3
  scale :: real
  originalPosition :: vec3
  phase :: real
  speed :: real
  color :: nat
  isNew :: bool
  emissiveIntensity :: real

text \<open>
  A connection line with its \<^verbatim>\<open>userData\<close>: \<^verbatim>\<open>{ nodeIndex, toCore }\<close> or
  \<^verbatim>\<open>{ nodeIndex1, nodeIndex2 }\<close>; an absent property is \<open>None\<close> (\<open>False\<close> for \<^verbatim>\<open>toCore\<close>).
  \<open>points\<close> are the two ends stored in the line's geometry.
\<close>

record connection =
  conn_id :: oid
  nodeIndex :: "nat option"
  nodeIndex1 :: "nat option"
  nodeIndex2 :: "nat option"
  toCore :: bool
  points :: "vec3 \<times> vec3"
  line_color :: nat
  line_opacity :: real

record pulse =
  pulse_id :: oid
  glow_id :: oid
  pulse_position :: vec3
  pulse_start :: vec3
  pulse_end :: vec3
  progress :: real
  pulse_speed :: real
  pulse_color :: nat
  pulse_opacity :: real
  glow_opacity :: real

text \<open>
  The \<^verbatim>\<open>THREE.Points\<close> object: the position buffer, the velocity buffer when the geometry
  has the attribute, \<^verbatim>\<open>userData.preset\<close> when it was set. \<open>color_mix\<close> keeps the
  \<^verbatim>\<open>mixRatio\<close> drawn for each particle in place of the colour buffer computed from it.
\<close>

record particles =
  points_id :: oid
  positions :: "real list"
  velocities :: "real list option"
  color_mix :: "real list"
  userData_preset :: "preset option"
  rotation_y :: real
  material_opacity :: real
  material_size :: real

record light =
  light_id :: oid
  isPointLight :: bool
  light_x :: real
  light_color :: nat

text \<open>
  The globals of \<^verbatim>\<open>app.js\<close> that the modelled functions read or write. \<open>scene\<close> is
  \<^verbatim>\<open>scene.children\<close>. \<open>random_seq\<close> and \<open>random_used\<close> are the state of \<^verbatim>\<open>Math.random\<close>,
  \<open>next_id\<close> the identity of the next object constructed.
\<close>

record state =
  scene :: "oid list"
  nodes :: "node list"
  connections :: "connection list"
  particleSystem :: "particles option"
  coreNode :: "oid option"
  lights :: "light list"
  dataPulses :: "pulse list"
  currentViz :: string
  CONFIG :: config
  addingNode :: bool
  mouseWorld :: vec3
  time :: real
  random_seq :: rng
  random_used :: nat
  next_id :: oid

subsection \<open>Arrays and the scene graph\<close>

text \<open>\<^verbatim>\<open>xs.indexOf(x)\<close> on the identities; \<open>None\<close> is \<open>-1\<close>.\<close>

fun indexOf :: "oid list \<Rightarrow> oid \<Rightarrow> nat option" where
  "indexOf [] x = None"
| "indexOf (y # ys) x = (if y = x then Some 0 else map_option Suc (indexOf ys x))"

text \<open>
  \<^verbatim>\<open>xs.splice(i, 1)\<close> with \<open>i\<close> the result of \<^verbatim>\<open>indexOf\<close>: at \<open>-1\<close> it removes the last element.
\<close>

definition splice1 :: "nat option \<Rightarrow> 'a list \<Rightarrow> 'a list" where
  "splice1 i xs = (case i of None \<Rightarrow> butlast xs | Some k \<Rightarrow> take k xs @ drop (k + 1) xs)"

text \<open>
  \<^verbatim>\<open>scene.add(o)\<close> detaches \<open>o\<close> from its parent and appends it; \<^verbatim>\<open>scene.remove(o)\<close> removes
  \<open>o\<close> when it is a child and does nothing otherwise.
\<close>

definition scene_add :: "oid \<Rightarrow> oid list \<Rightarrow> oid list" where
  "scene_add ob children = remove1 ob children @ [ob]"

definition scene_remove :: "oid \<Rightarrow> oid list \<Rightarrow> oid list" where
  "scene_remove ob children =
     (case indexOf children ob of None \<Rightarrow> children | Some k \<Rightarrow> splice1 (Some k) children)"

text \<open>\<^verbatim>\<open>a < b\<close> and \<^verbatim>\<open>b * c\<close> where \<open>b\<close> may be \<^verbatim>\<open>undefined\<close>: the product is \<^verbatim>\<open>NaN\<close>, the test false.\<close>

definition js_less :: "real \<Rightarrow> real option \<Rightarrow> bool" where
  "js_less a b = (case b of None \<Rightarrow> False | Some b' \<Rightarrow> a < b')"

definition js_times :: "real option \<Rightarrow> real \<Rightarrow> real option" where
  "js_times b c = map_option (\<lambda>b'. b' * c) b"

text \<open>\<^verbatim>\<open>v.lerpVectors(v1, v2, alpha)\<close>.\<close>

definition lerpVectors :: "vec3 \<Rightarrow> vec3 \<Rightarrow> real \<Rightarrow> vec3" where
  "lerpVectors v1 v2 alpha =
     (vec_x v1 + (vec_x v2 - vec_x v1) * alpha,
      vec_y v1 + (vec_y v2 - vec_y v1) * alpha,
      vec_z v1 + (vec_z v2 - vec_z v1) * alpha)"

section \<open>Building the scene\<close>

text \<open>
  Calls that only touch the DOM or the renderer (\<^verbatim>\<open>updateHUD\<close>, the materials and
  geometries of the meshes) have no counterpart in the state and are left out.
\<close>

definition createLights :: "state \<Rightarrow> state" where
  "createLights s =
     (let i = next_id s;
          ambient = \<lparr> light_id = i, isPointLight = False, light_x = 0, light_color = 0x111122 \<rparr>;
          light1 = \<lparr> light_id = i + 1, isPointLight = True, light_x = 5, light_color = cyan (CONFIG s) \<rparr>;
          light2 = \<lparr> light_id = i + 2, isPointLight = True, light_x = - 5,
                     light_color = magenta (CONFIG s) \<rparr>;
          light3 = \<lparr> light_id = i + 3, isPointLight = True, light_x = 0, light_color = yellow (CONFIG s) \<rparr>
      in s\<lparr> scene := scene_add (i + 3) (scene_add (i + 2) (scene_add (i + 1) (scene_add i (scene s)))),
            lights := lights s @ [ambient, light1, light2, light3],
            next_id := i + 4 \<rparr>)"

text \<open>
  \<^verbatim>\<open>createCoreNode\<close>: the glow sphere and the core are added to the scene, the inner core
  to the core.
\<close>

definition createCoreNode :: "state \<Rightarrow> state" where
  "createCoreNode s =
     (let glowSphere = next_id s; core = next_id s + 1; innerCore = next_id s + 2
      in s\<lparr> scene := scene_add core (scene_add glowSphere (scene s)),
            coreNode := Some core,
            next_id := innerCore + 1 \<rparr>)"

definition createNodes_body :: "nat \<Rightarrow> state \<Rightarrow> state" where
  "createNodes_body i s =
     (let R = random_seq s; k = random_used s;
          radius = fieldSize (CONFIG s) * (0.3 + R k * 0.7);
          theta = R (k + 1) * pi * 2;
          phi = arccos (2 * R (k + 2) - 1);
          x = radius * sin phi * cos theta;
          y = radius * sin phi * sin theta;
          z = radius * cos phi;
          colorChoice = R (k + 3);
          (c, e) = (if colorChoice < 0.5 then (cyan (CONFIG s), 0.3)
                    else if colorChoice < 0.8 then (magenta (CONFIG s), 0.4)
                    else (yellow (CONFIG s), 0.5));
          new = \<lparr> node_id = next_id s, position = (x, y, z), scale = 1,
                  originalPosition = (x, y, z), phase = R (k + 4) * pi * 2,
                  speed = 0.5 + R (k + 5) * 0.5, color = c, isNew = False,
                  emissiveIntensity = e \<rparr>
      in s\<lparr> scene := scene_add (node_id new) (scene s),
            nodes := nodes s @ [new],
            random_used := k + 6,
            next_id := next_id s + 1 \<rparr>)"

definition createNodes :: "state \<Rightarrow> state" where
  "createNodes s =
     for1 createNodes_body 0 (case nodeCount (CONFIG s) of None \<Rightarrow> 0 | Some n \<Rightarrow> n) s"

text \<open>\<^verbatim>\<open>scene.add(line); connections.push(line)\<close> for a line just constructed.\<close>

definition push_line :: "connection \<Rightarrow> state \<Rightarrow> state" where
  "push_line line s =
     s\<lparr> scene := scene_add (conn_id line) (scene s),
        connections := connections s @ [line],
        next_id := next_id s + 1 \<rparr>"

definition createConnections_inner :: "nat \<Rightarrow> nat \<Rightarrow> state \<Rightarrow> state" where
  "createConnections_inner i j s =
     (let distance = distanceTo (position (nodes s ! i)) (position (nodes s ! j))
      in if js_less distance (connectionDistance (CONFIG s)) then
           push_line \<lparr> conn_id = next_id s, nodeIndex = None, nodeIndex1 = Some i,
                       nodeIndex2 = Some j, toCore = False,
                       points = (position (nodes s ! i), position (nodes s ! j)),
                       line_color = cyan (CONFIG s), line_opacity = 0.3 \<rparr> s
         else s)"

definition createConnections_body :: "nat \<Rightarrow> state \<Rightarrow> state" where
  "createConnections_body i s =
     (let distToCore = vec_length (position (nodes s ! i));
          s = (if js_less distToCore (js_times (connectionDistance (CONFIG s)) 1.5) then
                 push_line \<lparr> conn_id = next_id s, nodeIndex = Some i, nodeIndex1 = None,
                             nodeIndex2 = None, toCore = True,
                             points = ((0, 0, 0), position (nodes s ! i)),
                             line_color = cyan (CONFIG s), line_opacity = 0.3 \<rparr> s
               else s)
      in for1 (createConnections_inner i) (i + 1) (length (nodes s)) s)"

definition createConnections :: "state \<Rightarrow> state" where
  "createConnections s = for1 createConnections_body 0 (length (nodes s)) s"

text \<open>
  \<^verbatim>\<open>createParticles\<close>, called by \<^verbatim>\<open>init\<close>: no velocity attribute, no \<^verbatim>\<open>userData.preset\<close>. The
  arithmetic that places the particles in a ball is exact in the model.
\<close>

definition createParticles_body ::
  "real \<Rightarrow> rng \<Rightarrow> nat \<Rightarrow> real list \<times> real list \<times> nat \<Rightarrow> real list \<times> real list \<times> nat" where
  "createParticles_body fs R i = (\<lambda>(positions, mix, k).
     let i3 = i * 3;
         radius = fs * 1.5 * R k;
         theta = R (k + 1) * pi * 2;
         phi = arccos (2 * R (k + 2) - 1);
         positions = positions[i3 := radius * sin phi * cos theta];
         positions = positions[i3 + 1 := radius * sin phi * sin theta];
         positions = positions[i3 + 2 := radius * cos phi];
         mixRatio = R (k + 3)
     in (positions, mix[i := mixRatio], k + 4))"

definition createParticles :: "state \<Rightarrow> state" where
  "createParticles s =
     (let particleCount = 500;
          (positions, mix, k) =
             for1 (createParticles_body (fieldSize (CONFIG s)) (random_seq s)) 0 particleCount
               (replicate (particleCount * 3) 0, replicate particleCount 0, random_used s);
          ps = \<lparr> points_id = next_id s, positions = positions, velocities = None,
                 color_mix = mix, userData_preset = None, rotation_y = 0,
                 material_opacity = 0.6, material_size = 0.03 \<rparr>
      in s\<lparr> scene := scene_add (points_id ps) (scene s),
            particleSystem := Some ps,
            random_used := k,
            next_id := next_id s + 1 \<rparr>)"

text \<open>
  The loop of \<^verbatim>\<open>createParticlesForPreset\<close>, which branches on \<^verbatim>\<open>currentViz\<close>. The matrix
  branch, whose cells the matrix rain reads, is modelled with its rounding; the branches that
  place the particles in a ball are exact.
\<close>

definition createParticlesForPreset_body ::
  "string \<Rightarrow> real \<Rightarrow> rng \<Rightarrow> nat \<Rightarrow> real list \<times> real list \<times> real list \<times> nat
     \<Rightarrow> real list \<times> real list \<times> real list \<times> nat" where
  "createParticlesForPreset_body viz fs R i = (\<lambda>(positions, velocities, mix, k).
     let i3 = i * 3;
         (positions, velocities, k) =
           (if viz = ''matrix'' then
              let positions = positions[i3 := f32 (f64 (f64 (R k - 0.5) * 20))];
                  positions = positions[i3 + 1 := f32 (f64 (f64 (R (k + 1) * 20) - 5))];
                  positions = positions[i3 + 2 := f32 (f64 (f64 (R (k + 2) - 0.5) * 20))];
                  velocities = velocities[i3 + 1 :=
                                 f32 (f64 (- f64 0.02 - f64 (R (k + 3) * f64 0.03)))]
              in (positions, velocities, k + 4)
            else if viz = ''storm'' then
              let radius = fs * 2 * R k;
                  theta = R (k + 1) * pi * 2;
                  phi = arccos (2 * R (k + 2) - 1);
                  positions = positions[i3 := radius * sin phi * cos theta];
                  positions = positions[i3 + 1 := radius * sin phi * sin theta];
                  positions = positions[i3 + 2 := radius * cos phi];
                  velocities = velocities[i3 := (R (k + 3) - 0.5) * 0.02];
                  velocities = velocities[i3 + 1 := (R (k + 4) - 0.5) * 0.02];
                  velocities = velocities[i3 + 2 := (R (k + 5) - 0.5) * 0.02]
              in (positions, velocities, k + 6)
            else if viz = ''swarm'' then
              let radius = fs * 2.5 * R k;
                  theta = R (k + 1) * pi * 2;
                  phi = arccos (2 * R (k + 2) - 1);
                  positions = positions[i3 := radius * sin phi * cos theta];
                  positions = positions[i3 + 1 := radius * sin phi * sin theta];
                  positions = positions[i3 + 2 := radius * cos phi];
                  velocities = velocities[i3 := (R (k + 3) - 0.5) * 0.02];
                  velocities = velocities[i3 + 1 := (R (k + 4) - 0.5) * 0.02];
                  velocities = velocities[i3 + 2 := (R (k + 5) - 0.5) * 0.02]
              in (positions, velocities, k + 6)
            else
              let radius = fs * 1.5 * R k;
                  theta = R (k + 1) * pi * 2;
                  phi = arccos (2 * R (k + 2) - 1);
                  positions = positions[i3 := radius * sin phi * cos theta];
                  positions = positions[i3 + 1 := radius * sin phi * sin theta];
                  positions = positions[i3 + 2 := radius * cos phi]
              in (positions, velocities, k + 3));
         mixRatio = R k
     in (positions, velocities, mix[i := mixRatio], k + 1))"

definition createParticlesForPreset :: "preset \<Rightarrow> state \<Rightarrow> state" where
  "createParticlesForPreset pr s =
     (let n = particleCount pr;
          (positions, vel, mix, k) =
             for1 (createParticlesForPreset_body (currentViz s) (fieldSize (CONFIG s)) (random_seq s))
               0 n (replicate (n * 3) 0, replicate (n * 3) 0, replicate n 0, random_used s);
          ps = \<lparr> points_id = next_id s, positions = positions, velocities = Some vel,
                 color_mix = mix, userData_preset = Some pr, rotation_y = 0,
                 material_opacity = (if currentViz s = ''constellation'' then 0.9 else 0.6),
                 material_size = particleSize pr \<rparr>
      in s\<lparr> scene := scene_add (points_id ps) (scene s),
            particleSystem := Some ps,
            random_used := k,
            next_id := next_id s + 1 \<rparr>)"

definition clearScene :: "state \<Rightarrow> state" where
  "clearScene s =
     (let s = s\<lparr> scene := fold (\<lambda>n. scene_remove (node_id n)) (nodes s) (scene s) \<rparr>;
          s = s\<lparr> nodes := [] \<rparr>;
          s = s\<lparr> scene := fold (\<lambda>c. scene_remove (conn_id c)) (connections s) (scene s) \<rparr>;
          s = s\<lparr> connections := [] \<rparr>;
          s = (case particleSystem s of
                 Some ps \<Rightarrow> s\<lparr> scene := scene_remove (points_id ps) (scene s), particleSystem := None \<rparr>
               | None \<Rightarrow> s);
          s = (case coreNode s of
                 Some core \<Rightarrow> s\<lparr> scene := scene_remove core (scene s), coreNode := None \<rparr>
               | None \<Rightarrow> s)
      in s)"

definition updateLightsForPreset :: "preset \<Rightarrow> state \<Rightarrow> state" where
  "updateLightsForPreset pr s =
     s\<lparr> lights := map (\<lambda>child.
            if light_id child \<in> set (scene s) \<and> isPointLight child then
              (if light_x child > 0 then child\<lparr> light_color := primary pr \<rparr>
               else child\<lparr> light_color := secondary pr \<rparr>)
            else child) (lights s) \<rparr>"

section \<open>\<^verbatim>\<open>switchVisualization\<close>\<close>

text \<open>
  With an inherited property as \<open>preset\<close> the guard \<^verbatim>\<open>if (!preset) return\<close> lets the call
  through: \<^verbatim>\<open>preset.nodeCount\<close> and \<^verbatim>\<open>preset.connectionDistance\<close> are \<^verbatim>\<open>undefined\<close>, and reading
  \<^verbatim>\<open>preset.colors.primary\<close> throws a \<^verbatim>\<open>TypeError\<close>.
\<close>

definition switchVisualization :: "string \<Rightarrow> state \<Rightarrow> completion \<times> state" where
  "switchVisualization vizKey s =
     (case VIZ_PRESETS_get vizKey of
        Undefined \<Rightarrow> (Normal, s)
      | Inherited \<Rightarrow>
          (let s = s\<lparr> currentViz := vizKey \<rparr>;
               s = s\<lparr> CONFIG := (CONFIG s)\<lparr> nodeCount := None \<rparr> \<rparr>;
               s = s\<lparr> CONFIG := (CONFIG s)\<lparr> connectionDistance := None \<rparr> \<rparr>
           in (Throw TypeError, s))
      | Own pr \<Rightarrow>
          (let s = s\<lparr> currentViz := vizKey \<rparr>;
               s = s\<lparr> CONFIG := (CONFIG s)\<lparr> nodeCount := Some (preset_nodeCount pr) \<rparr> \<rparr>;
               s = s\<lparr> CONFIG := (CONFIG s)\<lparr> connectionDistance := Some (preset_connectionDistance pr) \<rparr> \<rparr>;
               s = s\<lparr> CONFIG := (CONFIG s)\<lparr> cyan := primary pr \<rparr> \<rparr>;
               s = s\<lparr> CONFIG := (CONFIG s)\<lparr> magenta := secondary pr \<rparr> \<rparr>;
               s = s\<lparr> CONFIG := (CONFIG s)\<lparr> yellow := accent pr \<rparr> \<rparr>;
               s = clearScene s;
               s = createCoreNode s;
               s = createNodes s;
               s = createConnections s;
               s = createParticlesForPreset pr s;
               s = updateLightsForPreset pr s
           in (Normal, s)))"

section \<open>Adding and deleting nodes\<close>

text \<open>
  \<^verbatim>\<open>THREE.Ray\<close> and \<^verbatim>\<open>THREE.Plane\<close> of the three.js library: a ray is its origin and its
  direction, a plane its normal and its offset. \<^verbatim>\<open>ray.intersectPlane(plane, target)\<close>
  returns \<^verbatim>\<open>null\<close> and leaves \<open>target\<close> as it is when the ray does not meet the plane;
  otherwise it writes the point into \<open>target\<close> and returns it. The model returns both the
  returned value and the target afterwards.
\<close>

type_synonym ray = "vec3 \<times> vec3"
type_synonym plane = "vec3 \<times> real"

definition distanceToPlane :: "ray \<Rightarrow> plane \<Rightarrow> real option" where
  "distanceToPlane r pl =
     (let origin = fst r; direction = snd r; normal = fst pl; offset = snd pl;
          denominator = dot normal direction
      in if denominator = 0 then
           (if dot normal origin + offset = 0 then Some 0 else None)
         else
           let t = - (dot origin normal + offset) / denominator
           in if t \<ge> 0 then Some t else None)"

definition intersectPlane :: "ray \<Rightarrow> plane \<Rightarrow> vec3 \<Rightarrow> vec3 option \<times> vec3" where
  "intersectPlane r pl target =
     (case distanceToPlane r pl of
        None \<Rightarrow> (None, target)
      | Some t \<Rightarrow>
          let origin = fst r; direction = snd r;
              hit = (vec_x origin + vec_x direction * t,
                     vec_y origin + vec_y direction * t,
                     vec_z origin + vec_z direction * t)
          in (Some hit, hit))"

text \<open>\<^verbatim>\<open>Math.atan2(y, x)\<close>.\<close>

definition atan2 :: "real \<Rightarrow> real \<Rightarrow> real" where
  "atan2 y x =
     (if x > 0 then arctan (y / x)
      else if x < 0 \<and> y \<ge> 0 then arctan (y / x) + pi
      else if x < 0 \<and> y < 0 then arctan (y / x) - pi
      else if y > 0 then pi / 2
      else if y < 0 then - pi / 2
      else 0)"

text \<open>The truth value of a \<^verbatim>\<open>THREE.Vector3\<close> in a condition: an object is always truthy.\<close>

definition truthy :: "vec3 \<Rightarrow> bool" where
  "truthy v = True"

text \<open>
  \<^verbatim>\<open>connectNewNode(newNode)\<close>, called when \<open>newNode\<close> is the last element of \<^verbatim>\<open>nodes\<close>. The
  material takes \<^verbatim>\<open>preset.colors.accent\<close> before the loop.
\<close>

definition connectNewNode_body :: "node \<Rightarrow> preset \<Rightarrow> nat \<Rightarrow> state \<Rightarrow> state" where
  "connectNewNode_body newNode pr i s =
     (let distance = distanceTo (position newNode) (position (nodes s ! i))
      in if js_less distance (js_times (connectionDistance (CONFIG s)) 1.5) then
           push_line \<lparr> conn_id = next_id s, nodeIndex = None,
                       nodeIndex1 = Some (length (nodes s) - 1), nodeIndex2 = Some i,
                       toCore = False,
                       points = (position newNode, position (nodes s ! i)),
                       line_color = accent pr, line_opacity = 0.5 \<rparr> s
         else s)"

definition connectNewNode :: "node \<Rightarrow> state \<Rightarrow> completion \<times> state" where
  "connectNewNode newNode s =
     (case VIZ_PRESETS_get (currentViz s) of
        Own pr \<Rightarrow> (Normal, for1 (connectNewNode_body newNode pr) 0 (length (nodes s) - 1) s)
      | _ \<Rightarrow> (Throw TypeError, s))"

text \<open>
  \<^verbatim>\<open>addNode(position)\<close>. Of the spawn animation the model keeps the first, synchronous call
  of \<^verbatim>\<open>animateSpawn\<close> (the scale goes from 0 to 0.1); the later calls run from
  \<^verbatim>\<open>requestAnimationFrame\<close>.
\<close>

definition addNode :: "vec3 \<Rightarrow> state \<Rightarrow> completion \<times> state" where
  "addNode pos s =
     (case VIZ_PRESETS_get (currentViz s) of
        Own pr \<Rightarrow>
          (let R = random_seq s; k = random_used s;
               new = \<lparr> node_id = next_id s, position = pos, scale = 0,
                       originalPosition = pos, phase = R k * pi * 2,
                       speed = 0.5 + R (k + 1) * 0.5, color = accent pr, isNew = True,
                       emissiveIntensity = 0.8 \<rparr>;
               s = s\<lparr> scene := scene_add (node_id new) (scene s),
                      nodes := nodes s @ [new],
                      random_used := k + 2,
                      next_id := next_id s + 1 \<rparr>;
               targetScale = 1.5;
               new = (if scale new < targetScale then new\<lparr> scale := scale new + 0.1 \<rparr>
                      else new\<lparr> scale := targetScale \<rparr>);
               s = s\<lparr> nodes := butlast (nodes s) @ [new] \<rparr>
           in connectNewNode new s)
      | _ \<Rightarrow> (Throw TypeError, s))"

text \<open>
  \<^verbatim>\<open>onCanvasClick(event)\<close>. The argument is the ray that \<^verbatim>\<open>raycaster.setFromCamera\<close> computes
  from the click. The value returned by \<^verbatim>\<open>intersectPlane\<close> is dropped by the source; the
  test is on the vector that was passed as target.
\<close>

definition onCanvasClick :: "ray \<Rightarrow> state \<Rightarrow> completion \<times> state" where
  "onCanvasClick r s =
     (if \<not> addingNode s then (Normal, s)
      else
        let pl = ((0, 0, 1), 0);
            intersectPoint = (0, 0, 0);
            (returned, intersectPoint) = intersectPlane r pl intersectPoint
        in if truthy intersectPoint then
             let x = max (- 10) (min 10 (vec_x intersectPoint));
                 y = max (- 10) (min 10 (vec_y intersectPoint));
                 z = (random_seq s (random_used s) - 0.5) * 4;
                 s = s\<lparr> random_used := random_used s + 1 \<rparr>;
                 distFromCenter = sqrt (x\<^sup>2 + y\<^sup>2);
                 (x, y) = (if distFromCenter < 2 then
                             let angle = atan2 y x in (cos angle * 2.5, sin angle * 2.5)
                           else (x, y))
             in addNode (x, y, z) s
           else (Normal, s))"

text \<open>\<^verbatim>\<open>deleteNode(node)\<close>; \<open>ni\<close> is the local \<^verbatim>\<open>nodeIndex\<close>.\<close>

definition incident :: "nat \<Rightarrow> connection \<Rightarrow> bool" where
  "incident ni conn =
     (nodeIndex conn = Some ni \<or> nodeIndex1 conn = Some ni \<or> nodeIndex2 conn = Some ni)"

definition remove_connection :: "connection \<Rightarrow> state \<Rightarrow> state" where
  "remove_connection conn s =
     (let s = s\<lparr> scene := scene_remove (conn_id conn) (scene s) \<rparr>
      in s\<lparr> connections :=
              splice1 (indexOf (map conn_id (connections s)) (conn_id conn)) (connections s) \<rparr>)"

definition decrement_above :: "nat \<Rightarrow> nat option \<Rightarrow> nat option" where
  "decrement_above ni field =
     (case field of None \<Rightarrow> None | Some a \<Rightarrow> if a > ni then Some (a - 1) else Some a)"

definition update_indices :: "nat \<Rightarrow> connection \<Rightarrow> connection" where
  "update_indices ni conn =
     (let conn = conn\<lparr> nodeIndex := decrement_above ni (nodeIndex conn) \<rparr>;
          conn = conn\<lparr> nodeIndex1 := decrement_above ni (nodeIndex1 conn) \<rparr>;
          conn = conn\<lparr> nodeIndex2 := decrement_above ni (nodeIndex2 conn) \<rparr>
      in conn)"

definition deleteNode :: "node \<Rightarrow> state \<Rightarrow> state" where
  "deleteNode n s =
     (case indexOf (map node_id (nodes s)) (node_id n) of
        None \<Rightarrow> s
      | Some ni \<Rightarrow>
          let connectionsToRemove = filter (incident ni) (connections s);
              s = fold remove_connection connectionsToRemove s;
              s = s\<lparr> scene := scene_remove (node_id n) (scene s) \<rparr>;
              s = s\<lparr> nodes := splice1 (Some ni) (nodes s) \<rparr>;
              s = s\<lparr> connections := map (update_indices ni) (connections s) \<rparr>
          in s)"

section \<open>Data pulses\<close>

definition spawnDataPulse :: "state \<Rightarrow> completion \<times> state" where
  "spawnDataPulse s =
     (if length (connections s) = 0 then (Normal, s)
      else
        let R = random_seq s; k = random_used s;
            pick = nat \<lfloor>R k * real (length (connections s))\<rfloor>;
            s = s\<lparr> random_used := k + 1 \<rparr>
        in if pick < length (connections s) then
             (case VIZ_PRESETS_get (currentViz s) of
                Own pr \<Rightarrow>
                  (let conn = connections s ! pick;
                       start = fst (points conn);
                       end = snd (points conn);
                       p = \<lparr> pulse_id = next_id s, glow_id = next_id s + 1,
                             pulse_position = start, pulse_start = start, pulse_end = end,
                             progress = 0, pulse_speed = 0.015 + R (k + 1) * 0.02,
                             pulse_color = primary pr, pulse_opacity = 0.9, glow_opacity = 0.3 \<rparr>
                   in (Normal, s\<lparr> scene := scene_add (pulse_id p) (scene s),
                                   dataPulses := dataPulses s @ [p],
                                   random_used := k + 2,
                                   next_id := next_id s + 2 \<rparr>))
              | _ \<Rightarrow> (Throw TypeError, s))
           else (Throw TypeError, s))"

text \<open>
  The callback of \<^verbatim>\<open>dataPulses.forEach\<close> in \<^verbatim>\<open>animateDataPulses\<close>, as the new value of the
  pulse; the pulse goes to \<^verbatim>\<open>toRemove\<close> when its new progress is at least 1.
\<close>

definition advance_pulse :: "pulse \<Rightarrow> pulse" where
  "advance_pulse p =
     (let p = p\<lparr> progress := progress p + pulse_speed p \<rparr>
      in if progress p \<ge> 1 then p
         else
           let t = progress p;
               p = p\<lparr> pulse_position := lerpVectors (pulse_start p) (pulse_end p) t \<rparr>;
               fade = (if t < 0.7 then 0.9 else 0.9 * (1 - (t - 0.7) / 0.3))
           in p\<lparr> pulse_opacity := fade, glow_opacity := fade * 0.3 \<rparr>)"

definition remove_pulse :: "pulse \<Rightarrow> state \<Rightarrow> state" where
  "remove_pulse p s =
     (let s = s\<lparr> scene := scene_remove (pulse_id p) (scene s) \<rparr>
      in s\<lparr> dataPulses :=
              splice1 (indexOf (map pulse_id (dataPulses s)) (pulse_id p)) (dataPulses s) \<rparr>)"

definition animateDataPulses :: "state \<Rightarrow> state" where
  "animateDataPulses s =
     (let s = s\<lparr> dataPulses := map advance_pulse (dataPulses s) \<rparr>;
          toRemove = filter (\<lambda>p. progress p \<ge> 1) (dataPulses s)
      in fold remove_pulse toRemove s)"

section \<open>The per-frame particle update on the state\<close>

definition animateParticles :: "state \<Rightarrow> completion \<times> state" where
  "animateParticles s =
     (case particleSystem s of
        None \<Rightarrow> (Normal, s)
      | Some ps \<Rightarrow>
          if currentViz s = ''matrix'' then
            (case matrix_loop (random_seq s) (velocities ps) (positions ps, random_used s) of
               (positions', k) \<Rightarrow>
                 (Normal, s\<lparr> particleSystem := Some (ps\<lparr> positions := positions' \<rparr>),
                             random_used := k \<rparr>))
          else if currentViz s = ''storm'' then
            (case storm_loop (random_seq s) (velocities ps) (positions ps, random_used s) of
               (positions', velocities', k) \<Rightarrow>
                 let ps = ps\<lparr> positions := positions', velocities := velocities' \<rparr>;
                     s = s\<lparr> particleSystem := Some ps, random_used := k \<rparr>
                 in (case userData_preset ps of
                       None \<Rightarrow> (Throw TypeError, s)
                     | Some pr \<Rightarrow>
                         (Normal, s\<lparr> particleSystem :=
                            Some (ps\<lparr> rotation_y := rotation_y ps + particleSpeed pr * 2 \<rparr>) \<rparr>)))
          else if currentViz s = ''swarm'' then
            (case velocities ps of
               None \<Rightarrow> (Throw TypeError, s)
             | Some vel \<Rightarrow>
                 (case swarm_loop (positions ps, vel) of
                    (positions', vel') \<Rightarrow>
                      (Normal, s\<lparr> particleSystem :=
                         Some (ps\<lparr> positions := positions', velocities := Some vel' \<rparr>) \<rparr>)))
          else if currentViz s = ''constellation'' then
            (let ps = ps\<lparr> material_opacity := 0.7 + sin (time s * 2) * 0.2 \<rparr>;
                 s = s\<lparr> particleSystem := Some ps \<rparr>
             in (case userData_preset ps of
                   None \<Rightarrow> (Throw TypeError, s)
                 | Some pr \<Rightarrow>
                     (Normal, s\<lparr> particleSystem :=
                        Some (ps\<lparr> rotation_y := rotation_y ps + particleSpeed pr \<rparr>) \<rparr>)))
          else
            (let step = (case userData_preset ps of
                           None \<Rightarrow> 0.0002
                         | Some pr \<Rightarrow> if particleSpeed pr = 0 then 0.0002 else particleSpeed pr)
             in (Normal, s\<lparr> particleSystem := Some (ps\<lparr> rotation_y := rotation_y ps + step \<rparr>) \<rparr>)))"

definition applyMouseGravity :: "state \<Rightarrow> state" where
  "applyMouseGravity s =
     (case particleSystem s of
        None \<Rightarrow> s
      | Some ps \<Rightarrow>
          s\<lparr> particleSystem := Some (ps\<lparr> positions := gravity_loop (mouseWorld s) (positions ps) \<rparr>) \<rparr>)"

section \<open>Vocabulary of the statements\<close>

text \<open>
  The definitions of this section are not part of the program: the theorems are stated with
  them. Where a definition gives the effect of a loop on one particle, a lemma proves that
  the loop of the source has that effect.
\<close>

subsection \<open>Particles\<close>

text \<open>
  Particle \<open>p\<close> of a flat buffer, as a vector, and the buffer with particle \<open>p\<close> replaced.
\<close>

definition particle :: "real list \<Rightarrow> nat \<Rightarrow> vec3" where
  "particle buf p = (buf ! (3 * p), buf ! (3 * p + 1), buf ! (3 * p + 2))"

definition set_particle :: "real list \<Rightarrow> nat \<Rightarrow> vec3 \<Rightarrow> real list" where
  "set_particle buf p v = buf[3 * p := vec_x v, 3 * p + 1 := vec_y v, 3 * p + 2 := vec_z v]"

text \<open>
  The state of a loop over a buffer after its first \<open>p\<close> particles have been visited.
\<close>

definition after_particles :: "(nat \<Rightarrow> 'a \<Rightarrow> 'a) \<Rightarrow> nat \<Rightarrow> 'a \<Rightarrow> 'a" where
  "after_particles body p \<sigma> = fold body (map (\<lambda>q. 3 * q) [0..<p]) \<sigma>"

text \<open>
  The effect of the mouse-gravity step on a particle at \<open>P\<close> with the cursor at \<open>m\<close>.
\<close>

definition gravity_particle :: "vec3 \<Rightarrow> vec3 \<Rightarrow> vec3" where
  "gravity_particle m P =
     (let d = distanceTo m P in
      if d < 5 \<and> d > 0.1 then
        (vec_x P + (vec_x m - vec_x P) * (mouseGravityStrength * 0.01 / (d * d)),
         vec_y P + (vec_y m - vec_y P) * (mouseGravityStrength * 0.01 / (d * d)),
         vec_z P + (vec_z m - vec_z P) * (mouseGravityStrength * 0.01 / (d * d)))
      else P)"

text \<open>
  Matrix rain. The fall speed of particle \<open>p\<close> is what a frame subtracts from its \<open>y\<close>: the
  stored velocity component is negative and the source adds it; without a velocity attribute
  it is the double \<open>f64 0.03\<close>. \<open>fallen\<close> is the \<open>y\<close> cell after the fall: the difference is
  rounded to a double and stored as a float. \<open>resets\<close> says that the particle drops below the
  threshold in this frame; \<open>draws_before\<close> counts the random values drawn before the loop
  reaches particle \<open>p\<close>, two for every earlier particle that resets. \<open>random_coordinate\<close> is
  the cell that a reset stores for the random value \<open>r\<close>.
\<close>

definition fall_speed :: "real list option \<Rightarrow> nat \<Rightarrow> real" where
  "fall_speed vel p = (case vel of Some v \<Rightarrow> - (v ! (3 * p + 1)) | None \<Rightarrow> f64 0.03)"

definition fallen :: "real list option \<Rightarrow> real list \<Rightarrow> nat \<Rightarrow> real" where
  "fallen vel xs p = f32 (f64 (xs ! (3 * p + 1) - fall_speed vel p))"

definition resets :: "real list option \<Rightarrow> real list \<Rightarrow> nat \<Rightarrow> bool" where
  "resets vel xs p = (fallen vel xs p < - 10)"

definition draws_before :: "real list option \<Rightarrow> real list \<Rightarrow> nat \<Rightarrow> nat \<Rightarrow> nat" where
  "draws_before vel xs k p = k + 2 * length (filter (resets vel xs) [0..<p])"

definition random_coordinate :: "real \<Rightarrow> real" where
  "random_coordinate r = f32 (f64 (f64 (r - 0.5) * 20))"

text \<open>
  The velocity cell that \<^verbatim>\<open>createParticlesForPreset\<close> stores for a raindrop from the random
  value \<open>r\<close>.
\<close>

definition fall_velocity :: "real \<Rightarrow> real" where
  "fall_velocity r = f32 (f64 (- f64 0.02 - f64 (r * f64 0.03)))"

definition matrix_particle :: "rng \<Rightarrow> real list option \<Rightarrow> real list \<Rightarrow> nat \<Rightarrow> nat \<Rightarrow> vec3" where
  "matrix_particle R vel xs k p =
     (if resets vel xs p then
        (let d = draws_before vel xs k p
         in (random_coordinate (R d), 15, random_coordinate (R (d + 1))))
      else (xs ! (3 * p), fallen vel xs p, xs ! (3 * p + 2)))"




text \<open>
  Swarm, in the words of the specification. \<open>closer_than r xs p q\<close>: particle \<open>q\<close> is another
  particle than \<open>p\<close>, at a distance from \<open>p\<close> that is less than \<open>r\<close>. \<open>is_near r xs p q\<close>: the
  distance is greater than 0 as well. \<open>others_closer_than\<close> and \<open>others_within\<close> list these
  particles among all \<open>n\<close>; \<open>flock_of\<close> are the sums and counts taken over the latter: the
  unit vectors pointing away from the particles within the separation distance, the
  velocities and the positions of the particles within the perception radius.
\<close>

definition vec_sum :: "vec3 list \<Rightarrow> vec3" where
  "vec_sum vs = (sum_list (map (\<lambda>v. vec_x v) vs), sum_list (map (\<lambda>v. vec_y v) vs),
                 sum_list (map (\<lambda>v. vec_z v) vs))"

definition push_away :: "real list \<Rightarrow> nat \<Rightarrow> nat \<Rightarrow> vec3" where
  "push_away xs p q =
     (let d = distanceTo (particle xs q) (particle xs p)
      in (- ((xs ! (3 * q) - xs ! (3 * p)) / d),
          - ((xs ! (3 * q + 1) - xs ! (3 * p + 1)) / d),
          - ((xs ! (3 * q + 2) - xs ! (3 * p + 2)) / d)))"

definition closer_than :: "real \<Rightarrow> real list \<Rightarrow> nat \<Rightarrow> nat \<Rightarrow> bool" where
  "closer_than r xs p q = (q \<noteq> p \<and> distanceTo (particle xs q) (particle xs p) < r)"

definition others_closer_than :: "real \<Rightarrow> real list \<Rightarrow> nat \<Rightarrow> nat \<Rightarrow> nat list" where
  "others_closer_than r xs n p = filter (closer_than r xs p) [0..<n]"

definition is_near :: "real \<Rightarrow> real list \<Rightarrow> nat \<Rightarrow> nat \<Rightarrow> bool" where
  "is_near r xs p q = (q \<noteq> p \<and> distanceTo (particle xs q) (particle xs p) < r
                   \<and> distanceTo (particle xs q) (particle xs p) > 0)"

definition others_within :: "real \<Rightarrow> real list \<Rightarrow> nat \<Rightarrow> nat \<Rightarrow> nat list" where
  "others_within r xs n p = filter (is_near r xs p) [0..<n]"

definition flock_of :: "real list \<Rightarrow> real list \<Rightarrow> nat \<Rightarrow> nat \<Rightarrow> flock" where
  "flock_of xs vs n p =
     (let S = others_within separationDist xs n p;
          N = others_within perceptionRadius xs n p;
          separation = vec_sum (map (push_away xs p) S);
          alignment = vec_sum (map (particle vs) N);
          cohesion = vec_sum (map (particle xs) N)
      in \<lparr> sepX = vec_x separation, sepY = vec_y separation, sepZ = vec_z separation,
           sepCount = length S,
           alignX = vec_x alignment, alignY = vec_y alignment, alignZ = vec_z alignment,
           alignCount = length N,
           cohX = vec_x cohesion, cohY = vec_y cohesion, cohZ = vec_z cohesion,
           cohCount = length N \<rparr>)"

text \<open>
  The velocity of particle \<open>p\<close> after the flocking forces, from its position \<open>P\<close>, its velocity
  \<open>V\<close>, the particles \<open>S\<close> within the separation distance and the particles \<open>N\<close> within the
  perception radius. Separation adds twice \<open>maxForce\<close> times the mean of the unit vectors
  that point away from the particles of \<open>S\<close>. Alignment then adds \<open>maxForce\<close> times the
  difference between the mean velocity of \<open>N\<close> and the velocity reached so far. Cohesion adds
  half of \<open>maxForce\<close> times the vector from \<open>P\<close> to the mean position of \<open>N\<close>. A particle
  farther than 18 from the origin is steered back by \<open>0.0003\<close> times its position. An empty
  \<open>S\<close> or \<open>N\<close> contributes nothing.
\<close>

definition vec_add :: "vec3 \<Rightarrow> vec3 \<Rightarrow> vec3" where
  "vec_add a b = (vec_x a + vec_x b, vec_y a + vec_y b, vec_z a + vec_z b)"

definition vec_sub :: "vec3 \<Rightarrow> vec3 \<Rightarrow> vec3" where
  "vec_sub a b = (vec_x a - vec_x b, vec_y a - vec_y b, vec_z a - vec_z b)"

definition vec_scale :: "real \<Rightarrow> vec3 \<Rightarrow> vec3" where
  "vec_scale k a = (k * vec_x a, k * vec_y a, k * vec_z a)"

definition vec_mean :: "vec3 list \<Rightarrow> vec3" where
  "vec_mean vs = vec_scale (1 / real (length vs)) (vec_sum vs)"

definition flock_velocity :: "real list \<Rightarrow> real list \<Rightarrow> nat \<Rightarrow> nat \<Rightarrow> vec3" where
  "flock_velocity xs vs n p =
     (let P = particle xs p;
          V = particle vs p;
          S = others_within separationDist xs n p;
          N = others_within perceptionRadius xs n p;
          V = (if S = [] then V
               else vec_add V (vec_scale (2 * maxForce) (vec_mean (map (push_away xs p) S))));
          V = (if N = [] then V
               else vec_add V (vec_scale maxForce (vec_sub (vec_mean (map (particle vs) N)) V)));
          V = (if N = [] then V
               else vec_add V (vec_scale (0.5 * maxForce) (vec_sub (vec_mean (map (particle xs) N)) P)))
      in if vec_length P > 18 then vec_sub V (vec_scale 0.0003 P) else V)"

text \<open>
  The speed of a velocity as a frame computes it in double arithmetic, the velocity after the
  speed limit, and the float cells that a vector is stored in. \<open>swarm_particle\<close> is the whole
  update of particle \<open>p\<close>: the limited velocity is stored, and the position moves by the
  limited velocity before it is stored.
\<close>

definition computed_speed :: "vec3 \<Rightarrow> real" where
  "computed_speed v =
     f64 (sqrt (f64 (f64 (f64 (vec_x v * vec_x v) + f64 (vec_y v * vec_y v))
                       + f64 (vec_z v * vec_z v))))"

definition clamp_speed :: "vec3 \<Rightarrow> vec3" where
  "clamp_speed u =
     (if computed_speed u > f64 0.03 then
        (f64 (f64 (vec_x u / computed_speed u) * f64 0.03),
         f64 (f64 (vec_y u / computed_speed u) * f64 0.03),
         f64 (f64 (vec_z u / computed_speed u) * f64 0.03))
      else u)"

definition to_float32 :: "vec3 \<Rightarrow> vec3" where
  "to_float32 v = (f32 (vec_x v), f32 (vec_y v), f32 (vec_z v))"

definition swarm_particle :: "nat \<Rightarrow> nat \<Rightarrow> real list \<times> real list \<Rightarrow> real list \<times> real list" where
  "swarm_particle n p = (\<lambda>(xs, vs).
     let P = particle xs p;
         v = clamp_speed (flock_velocity xs vs n p)
     in (set_particle xs p
           (f32 (f64 (vec_x P + vec_x v)), f32 (f64 (vec_y P + vec_y v)), f32 (f64 (vec_z P + vec_z v))),
         set_particle vs p (to_float32 v)))"

subsection \<open>Nodes and connections\<close>

text \<open>
  An index stored in a connection is valid when it is absent or points into the array of
  nodes. \<open>same_target old new a a'\<close>: the index \<open>a'\<close> stored after a deletion is valid in the new
  array and points at the node that \<open>a\<close> pointed at in the old one.
\<close>

definition valid_index :: "node list \<Rightarrow> nat option \<Rightarrow> bool" where
  "valid_index ns a = (case a of None \<Rightarrow> True | Some i \<Rightarrow> i < length ns)"

definition valid_connection :: "node list \<Rightarrow> connection \<Rightarrow> bool" where
  "valid_connection ns c =
     (valid_index ns (nodeIndex c) \<and> valid_index ns (nodeIndex1 c) \<and> valid_index ns (nodeIndex2 c))"

definition same_target :: "node list \<Rightarrow> node list \<Rightarrow> nat option \<Rightarrow> nat option \<Rightarrow> bool" where
  "same_target old new a a' =
     (case a of
        None \<Rightarrow> a' = None
      | Some i \<Rightarrow> (case a' of None \<Rightarrow> False | Some j \<Rightarrow> j < length new \<and> new ! j = old ! i))"

text \<open>
  Well-formed states. Objects are distinct: no identity occurs twice among the children of the
  scene, the nodes, the connections or the pulses, and every identity in use is below the
  next one to be given out. Every connection stores valid indices.
\<close>

definition ids_below :: "state \<Rightarrow> bool" where
  "ids_below s =
     ((\<forall>i \<in> set (scene s). i < next_id s) \<and> (\<forall>n \<in> set (nodes s). node_id n < next_id s) \<and>
      (\<forall>c \<in> set (connections s). conn_id c < next_id s) \<and>
      (\<forall>p \<in> set (dataPulses s). pulse_id p < next_id s))"

definition well_formed :: "state \<Rightarrow> bool" where
  "well_formed s =
     (distinct (scene s) \<and> distinct (map node_id (nodes s)) \<and>
      distinct (map conn_id (connections s)) \<and> distinct (map pulse_id (dataPulses s)) \<and>
      (\<forall>c \<in> set (connections s). valid_connection (nodes s) c) \<and> ids_below s)"

subsection \<open>Example states\<close>

text \<open>
  The globals as \<^verbatim>\<open>app.js\<close> declares them, with an empty scene, and \<open>R\<close> for the values of
  \<^verbatim>\<open>Math.random\<close>.
\<close>

definition initial_state :: "rng \<Rightarrow> state" where
  "initial_state R =
     \<lparr> scene = [], nodes = [], connections = [], particleSystem = None, coreNode = None,
       lights = [], dataPulses = [], currentViz = ''neural'', CONFIG = CONFIG_initial,
       addingNode = False, mouseWorld = (0, 0, 0), time = 0, random_seq = R,
       random_used = 0, next_id = 0 \<rparr>"

text \<open>
  A particle system with the given buffers and the preset of the given key; a node, the two
  kinds of connection and a pulse with the given identity; a scene of three nodes, four
  connections and two pulses; a swarm of four particles, the last at the place of the first;
  a ray from a camera at \<open>(12, 5, 1)\<close> that points away from the plane \<open>z = 0\<close>. Then a
  raindrop at \<open>y = -10\<close> with fall speed \<open>1 / 32\<close> in a frame whose random values are all
  \<open>1 - 1 / 2 ^ 30\<close>; a single boid at the origin with velocity \<open>(1, 4, 8)\<close>, of speed 9; and two
  boids five units apart, the first with velocity \<open>(1, 0, 0)\<close>, the second at rest. All these
  cell values are floats.
\<close>

definition small_system :: "string \<Rightarrow> real list \<Rightarrow> real list option \<Rightarrow> particles" where
  "small_system key xs vel =
     \<lparr> points_id = 0, positions = xs, velocities = vel, color_mix = replicate (length xs div 3) 0,
       userData_preset = map_of VIZ_PRESETS key, rotation_y = 0, material_opacity = 0.6,
       material_size = 0.03 \<rparr>"

definition node_at :: "oid \<Rightarrow> vec3 \<Rightarrow> node" where
  "node_at i pos =
     \<lparr> node_id = i, position = pos, scale = 1, originalPosition = pos, phase = 0,
       speed = 1 / 2, color = 0x02d7f2, isNew = False, emissiveIntensity = 0.3 \<rparr>"

definition core_line :: "oid \<Rightarrow> nat \<Rightarrow> vec3 \<Rightarrow> connection" where
  "core_line i a pos =
     \<lparr> conn_id = i, nodeIndex = Some a, nodeIndex1 = None, nodeIndex2 = None, toCore = True,
       points = ((0, 0, 0), pos), line_color = 0x02d7f2, line_opacity = 0.3 \<rparr>"

definition node_line :: "oid \<Rightarrow> nat \<Rightarrow> nat \<Rightarrow> vec3 \<Rightarrow> vec3 \<Rightarrow> connection" where
  "node_line i a b pa pb =
     \<lparr> conn_id = i, nodeIndex = None, nodeIndex1 = Some a, nodeIndex2 = Some b, toCore = False,
       points = (pa, pb), line_color = 0x02d7f2, line_opacity = 0.3 \<rparr>"

definition pulse_at :: "oid \<Rightarrow> real \<Rightarrow> real \<Rightarrow> pulse" where
  "pulse_at i pr sp =
     \<lparr> pulse_id = i, glow_id = i + 1, pulse_position = (0, 0, 0), pulse_start = (0, 0, 0),
       pulse_end = (3, 0, 0), progress = pr, pulse_speed = sp, pulse_color = 0x02d7f2,
       pulse_opacity = 0.9, glow_opacity = 0.3 \<rparr>"

definition three_nodes :: state where
  "three_nodes =
     (initial_state (\<lambda>k. 1 / 2))
       \<lparr> scene := [10, 11, 12, 20, 21, 22, 23, 30, 32],
         nodes := [node_at 10 (3, 0, 0), node_at 11 (5 / 2, 4, 0), node_at 12 (5 / 2, 0, 3)],
         connections := [core_line 20 0 (3, 0, 0), node_line 21 0 1 (3, 0, 0) (5 / 2, 4, 0),
                         node_line 22 1 2 (5 / 2, 4, 0) (5 / 2, 0, 3), core_line 23 2 (5 / 2, 0, 3)],
         dataPulses := [pulse_at 30 0.99 0.02, pulse_at 32 0.5 0.02],
         next_id := 34 \<rparr>"

definition swarm_example :: state where
  "swarm_example =
     (initial_state (\<lambda>k. 1 / 2))\<lparr> currentViz := ''swarm'', particleSystem :=
        Some (small_system ''swarm'' [0, 0, 0, 1 / 2, 0, 0, 2, 0, 0, 0, 0, 0]
                (Some [1, 0, 0, 0, 0, 0, 0, 0, 0, 0, 0, 0])) \<rparr>"

definition missing_ray :: ray where
  "missing_ray = ((12, 5, 1), (- 12, - 5, 1))"

definition late_values :: rng where
  "late_values k = 1 - 1 / 2 ^ 30"

definition late_draw :: state where
  "late_draw =
     (initial_state late_values)\<lparr> currentViz := ''matrix'', particleSystem :=
        Some (small_system ''matrix'' [0, - 10, 0] (Some [0, - (1 / 32), 0])) \<rparr>"

definition fast_boid :: state where
  "fast_boid =
     (initial_state (\<lambda>k. 1 / 2))\<lparr> currentViz := ''swarm'', particleSystem :=
        Some (small_system ''swarm'' [0, 0, 0] (Some [1, 4, 8])) \<rparr>"

definition two_boids :: state where
  "two_boids =
     (initial_state (\<lambda>k. 1 / 2))\<lparr> currentViz := ''swarm'', particleSystem :=
        Some (small_system ''swarm'' [0, 0, 0, 5, 0, 0] (Some [1, 0, 0, 0, 0, 0])) \<rparr>"

section \<open>Proofs\<close>

subsection \<open>Loops\<close>

lemma for3_from: "a \<le> n \<Longrightarrow> for3 body (3 * a) (3 * n) \<sigma> = fold body (map (\<lambda>q. 3 * q) [a..<n]) \<sigma>"
proof (induction "n - a" arbitrary: a \<sigma>)
  case 0
  then show ?case by (simp add: for3.simps)
next
  case (Suc d)
  then have lt: "a < n" and d: "d = n - Suc a" by auto
  have "for3 body (3 * a) (3 * n) \<sigma> = for3 body (3 * Suc a) (3 * n) (body (3 * a) \<sigma>)"
    using lt by (subst for3.simps) (simp add: add.commute)
  also have "\<dots> = fold body (map (\<lambda>q. 3 * q) [Suc a..<n]) (body (3 * a) \<sigma>)"
    using Suc.hyps(1) [OF d] lt by simp
  also have "\<dots> = fold body (map (\<lambda>q. 3 * q) [a..<n]) \<sigma>"
    using lt by (simp add: upt_conv_Cons)
  finally show ?case .
qed

lemma for3_after: "for3 body 0 (3 * n) \<sigma> = after_particles body n \<sigma>"
  using for3_from [of 0 n body \<sigma>] by (simp add: after_particles_def)

lemma after_0: "after_particles body 0 \<sigma> = \<sigma>"
  by (simp add: after_particles_def)

lemma after_Suc: "after_particles body (Suc p) \<sigma> = body (3 * p) (after_particles body p \<sigma>)"
  by (simp add: after_particles_def)

lemma for1_fold: "for1 body a n \<sigma> = fold body [a..<n] \<sigma>"
proof (induction "n - a" arbitrary: a \<sigma>)
  case 0
  then show ?case by (simp add: for1.simps)
next
  case (Suc d)
  then have lt: "a < n" and d: "d = n - Suc a" by auto
  have "for1 body a n \<sigma> = for1 body (Suc a) n (body a \<sigma>)"
    using lt by (subst for1.simps) simp
  also have "\<dots> = fold body [Suc a..<n] (body a \<sigma>)"
    using Suc.hyps(1) [OF d] by simp
  also have "\<dots> = fold body [a..<n] \<sigma>"
    using lt by (simp add: upt_conv_Cons)
  finally show ?case .
qed

lemma particle_cong:
  "(\<And>j. 3 * p \<le> j \<Longrightarrow> j \<le> 3 * p + 2 \<Longrightarrow> xs ! j = ys ! j) \<Longrightarrow> particle xs p = particle ys p"
  by (simp add: particle_def)

subsection \<open>Rounding\<close>

text \<open>
  \<open>round_even\<close> is within one half of its argument, monotone and odd. \<open>round_to\<close> has relative
  error at most \<open>1 / 2 ^ p\<close>, is monotone and odd, and leaves alone every number with \<open>p\<close>
  significant bits, so the doubles and floats are its fixed points. \<open>round_to_eval\<close> computes
  it on a number whose binade is known.
\<close>

lemma round_even_of_int [simp]: "round_even (of_int k) = k"
  by (simp add: round_even_def)

lemma round_even_bounds: "of_int (round_even t) \<le> t + 1 / 2" "t - 1 / 2 \<le> of_int (round_even t)"
  unfolding round_even_def Let_def by (auto; linarith)+

lemma round_even_error: "\<bar>of_int (round_even t) - t\<bar> \<le> 1 / 2"
  using round_even_bounds [of t] by linarith

lemma round_even_mono: "a \<le> b \<Longrightarrow> round_even a \<le> round_even b"
proof -
  assume ab: "a \<le> b"
  show ?thesis
  proof (cases "\<lfloor>a\<rfloor> = \<lfloor>b\<rfloor>")
    case True
    then show ?thesis using ab unfolding round_even_def Let_def by auto
  next
    case False
    with ab have lt: "\<lfloor>a\<rfloor> + 1 \<le> \<lfloor>b\<rfloor>" using floor_mono [OF ab] by linarith
    have "round_even a \<le> \<lfloor>a\<rfloor> + 1" unfolding round_even_def Let_def by auto
    moreover have "\<lfloor>b\<rfloor> \<le> round_even b" unfolding round_even_def Let_def by auto
    ultimately show ?thesis using lt by linarith
  qed
qed

lemma round_even_minus: "round_even (- t) = - round_even t"
proof (cases "t = of_int \<lfloor>t\<rfloor>")
  case True
  then obtain k where "t = of_int k" by blast
  then have "- t = of_int (- k)" by simp
  then show ?thesis using \<open>t = of_int k\<close> by (metis round_even_of_int)
next
  case False
  then have fl: "\<lfloor>- t\<rfloor> = - \<lfloor>t\<rfloor> - 1"
    by (metis ceiling_altdef ceiling_def minus_diff_eq diff_minus_eq_add uminus_add_conv_diff
        add.commute floor_minus)
  have frac: "- t - of_int (- \<lfloor>t\<rfloor> - 1) = 1 - (t - of_int \<lfloor>t\<rfloor>)" by simp
  show ?thesis
    unfolding round_even_def Let_def fl frac by (auto; linarith?)
qed

lemma powi_powr: "(2::real) powr real_of_int e = 2 powi e"
  by (simp add: powr_real_of_int')

lemma binade_unique:
  assumes "2 powi e \<le> \<bar>x\<bar>" "\<bar>x\<bar> < 2 powi (e + 1)"
  shows "\<lfloor>log 2 \<bar>x\<bar>\<rfloor> = e"
proof -
  have pos: "0 < \<bar>x\<bar>" using assms(1) by (smt (verit) zero_less_power_int)
  have "2 powr real_of_int e \<le> \<bar>x\<bar> \<and> \<bar>x\<bar> < 2 powr (real_of_int e + 1)"
    using assms powi_powr [of e] powi_powr [of "e + 1"] by simp
  then show ?thesis using floor_log_eq_powr_iff [OF pos, of 2 e] by simp
qed

lemma binade_exists:
  assumes "x \<noteq> 0"
  shows "2 powi \<lfloor>log 2 \<bar>x\<bar>\<rfloor> \<le> \<bar>x\<bar>" "\<bar>x\<bar> < 2 powi (\<lfloor>log 2 \<bar>x\<bar>\<rfloor> + 1)"
proof -
  have pos: "0 < \<bar>x\<bar>" using assms by simp
  have "2 powr real_of_int \<lfloor>log 2 \<bar>x\<bar>\<rfloor> \<le> \<bar>x\<bar> \<and> \<bar>x\<bar> < 2 powr (real_of_int \<lfloor>log 2 \<bar>x\<bar>\<rfloor> + 1)"
    using floor_log_eq_powr_iff [OF pos, of 2 "\<lfloor>log 2 \<bar>x\<bar>\<rfloor>"] by simp
  then show "2 powi \<lfloor>log 2 \<bar>x\<bar>\<rfloor> \<le> \<bar>x\<bar>" "\<bar>x\<bar> < 2 powi (\<lfloor>log 2 \<bar>x\<bar>\<rfloor> + 1)"
    using powi_powr [of "\<lfloor>log 2 \<bar>x\<bar>\<rfloor>"] powi_powr [of "\<lfloor>log 2 \<bar>x\<bar>\<rfloor> + 1"] by simp_all
qed

lemma round_to_binade:
  assumes "2 powi e \<le> \<bar>x\<bar>" "\<bar>x\<bar> < 2 powi (e + 1)"
  shows "round_to p x = of_int (round_even (x / 2 powi (e - int p + 1))) * 2 powi (e - int p + 1)"
proof -
  have "x \<noteq> 0" using assms(1) by (smt (verit) zero_less_power_int)
  then show ?thesis by (simp add: round_to_def binade_unique [OF assms] Let_def)
qed

lemma round_to_0 [simp]: "round_to p 0 = 0"
  by (simp add: round_to_def)

lemma round_to_minus: "round_to p (- x) = - round_to p x"
  by (simp add: round_to_def round_even_minus Let_def)

lemma round_to_error: "\<bar>round_to p x - x\<bar> \<le> \<bar>x\<bar> / 2 ^ p"
proof (cases "x = 0")
  case True
  then show ?thesis by simp
next
  case False
  define e where "e = \<lfloor>log 2 \<bar>x\<bar>\<rfloor>"
  define u :: real where "u = 2 powi (e - int p + 1)"
  have u: "0 < u" by (simp add: u_def)
  have b: "2 powi e \<le> \<bar>x\<bar>" using binade_exists(1) [OF False] by (simp add: e_def)
  have r: "round_to p x = of_int (round_even (x / u)) * u"
    using False by (simp add: round_to_def e_def u_def Let_def)
  have "of_int (round_even (x / u)) * u - x = (of_int (round_even (x / u)) - x / u) * u"
    using u by (simp add: field_simps)
  then have "\<bar>round_to p x - x\<bar> = \<bar>of_int (round_even (x / u)) - x / u\<bar> * u"
    unfolding r using u by (simp only: abs_mult abs_of_pos)
  also have "\<dots> \<le> 1 / 2 * u" using round_even_error [of "x / u"] u by (intro mult_right_mono) simp_all
  also have "1 / 2 * u = 2 powi e / 2 ^ p"
    unfolding u_def by (simp add: power_int_diff power_int_add)
  also have "\<dots> \<le> \<bar>x\<bar> / 2 ^ p" using b by (simp add: divide_right_mono)
  finally show ?thesis .
qed

lemma round_to_range:
  assumes "0 < x" "0 < p"
  shows "2 powi \<lfloor>log 2 x\<rfloor> \<le> round_to p x" "round_to p x \<le> 2 powi (\<lfloor>log 2 x\<rfloor> + 1)"
proof -
  define e where "e = \<lfloor>log 2 x\<rfloor>"
  define u :: real where "u = 2 powi (e - int p + 1)"
  have u: "0 < u" by (simp add: u_def)
  have ne: "x \<noteq> 0" using assms(1) by simp
  have b: "2 powi e \<le> x" "x < 2 powi (e + 1)"
    using binade_exists [OF ne] assms(1) by (simp_all add: e_def)
  have r: "round_to p x = of_int (round_even (x / u)) * u"
    using ne assms(1) by (simp add: round_to_def e_def u_def Let_def)
  obtain q where q: "p = Suc q" using assms(2) by (cases p) simp_all
  have lo: "2 powi e = of_int (2 ^ (p - 1)) * u"
    unfolding u_def q by (simp add: power_int_diff power_int_add)
  have hi: "2 powi (e + 1) = of_int (2 ^ p) * u"
    unfolding u_def by (simp add: power_int_diff power_int_add)
  have "of_int (2 ^ (p - 1)) \<le> x / u" using b(1) u unfolding lo by (simp add: pos_le_divide_eq)
  then have "round_even (of_int (2 ^ (p - 1))) \<le> round_even (x / u)" by (rule round_even_mono)
  then have l: "(2::int) ^ (p - 1) \<le> round_even (x / u)" by (simp only: round_even_of_int)
  have "x / u \<le> of_int (2 ^ p)" using b(2) u unfolding hi by (simp add: pos_divide_le_eq)
  then have "round_even (x / u) \<le> round_even (of_int (2 ^ p))" by (rule round_even_mono)
  then have h: "round_even (x / u) \<le> (2::int) ^ p" by (simp only: round_even_of_int)
  have "of_int (2 ^ (p - 1)) * u \<le> of_int (round_even (x / u)) * u"
    using l u by (intro mult_right_mono) (simp_all only: of_int_le_iff less_imp_le)
  then show "2 powi \<lfloor>log 2 x\<rfloor> \<le> round_to p x" unfolding r lo e_def [symmetric] .
  have "of_int (round_even (x / u)) * u \<le> of_int (2 ^ p) * u"
    using h u by (intro mult_right_mono) (simp_all only: of_int_le_iff less_imp_le)
  then show "round_to p x \<le> 2 powi (\<lfloor>log 2 x\<rfloor> + 1)" unfolding r hi e_def [symmetric] .
qed

lemma round_to_mono_pos:
  assumes "0 < x" "x \<le> y" "0 < p"
  shows "round_to p x \<le> round_to p y"
proof -
  have y: "0 < y" using assms by simp
  have le: "\<lfloor>log 2 x\<rfloor> \<le> \<lfloor>log 2 y\<rfloor>"
    using assms(1,2) by (intro floor_mono) simp
  show ?thesis
  proof (cases "\<lfloor>log 2 x\<rfloor> = \<lfloor>log 2 y\<rfloor>")
    case True
    define u :: real where "u = 2 powi (\<lfloor>log 2 y\<rfloor> - int p + 1)"
    have u: "0 < u" by (simp add: u_def)
    have rx: "round_to p x = of_int (round_even (x / u)) * u"
      using assms(1) True by (simp add: round_to_def u_def Let_def)
    have ry: "round_to p y = of_int (round_even (y / u)) * u"
      using y by (simp add: round_to_def u_def Let_def)
    have "x / u \<le> y / u" using assms(2) u by (simp add: divide_right_mono)
    then have "round_even (x / u) \<le> round_even (y / u)" by (rule round_even_mono)
    then show ?thesis unfolding rx ry using u by (intro mult_right_mono) simp_all
  next
    case False
    with le have "\<lfloor>log 2 x\<rfloor> + 1 \<le> \<lfloor>log 2 y\<rfloor>" by simp
    then have "(2::real) powi (\<lfloor>log 2 x\<rfloor> + 1) \<le> 2 powi \<lfloor>log 2 y\<rfloor>"
      by (intro power_int_increasing) simp_all
    then show ?thesis
      using round_to_range(2) [OF assms(1,3)] round_to_range(1) [OF y assms(3)] by linarith
  qed
qed

lemma round_to_nonneg: "0 \<le> x \<Longrightarrow> 0 < p \<Longrightarrow> 0 \<le> round_to p x"
proof (cases "x = 0")
  case True
  then show ?thesis by simp
next
  case False
  assume "0 \<le> x" "0 < p"
  with False have "0 < x" by simp
  from round_to_range(1) [OF this \<open>0 < p\<close>] show ?thesis
    by (smt (verit) zero_less_power_int)
qed

lemma round_to_mono:
  assumes "x \<le> y" "0 < p"
  shows "round_to p x \<le> round_to p y"
proof -
  consider "0 < x" | "x \<le> 0" "0 \<le> y" | "y < 0" using assms(1) by linarith
  then show ?thesis
  proof cases
    case 1
    then show ?thesis using round_to_mono_pos assms by simp
  next
    case 2
    have "0 \<le> round_to p (- x)" using 2(1) assms(2) by (intro round_to_nonneg) simp_all
    then have "round_to p x \<le> 0" by (simp add: round_to_minus)
    moreover have "0 \<le> round_to p y" using 2(2) assms(2) by (rule round_to_nonneg)
    ultimately show ?thesis by simp
  next
    case 3
    then have "0 < - y" "- y \<le> - x" using assms(1) by simp_all
    from round_to_mono_pos [OF this assms(2)] show ?thesis by (simp add: round_to_minus)
  qed
qed

lemma round_to_exact:
  assumes x: "x = of_int m * 2 powi j" and m: "\<bar>m\<bar> < 2 ^ p"
  shows "round_to p x = x"
proof (cases "x = 0")
  case True
  then show ?thesis by simp
next
  case False
  define e where "e = \<lfloor>log 2 \<bar>x\<bar>\<rfloor>"
  have "\<bar>x\<bar> = of_int \<bar>m\<bar> * 2 powi j" by (simp add: x abs_mult)
  also have "\<dots> < of_int (2 ^ p) * 2 powi j"
    using m by (intro mult_strict_right_mono) (simp_all only: of_int_less_iff zero_less_power_int zero_less_numeral)
  also have "\<dots> = 2 powi (int p + j)" by (simp add: power_int_add)
  finally have up: "\<bar>x\<bar> < 2 powi (int p + j)" .
  have "2 powi e \<le> \<bar>x\<bar>" using binade_exists(1) [OF False] by (simp add: e_def)
  with up have "(2::real) powi e < 2 powi (int p + j)" by linarith
  then have "e < int p + j"
    using power_int_increasing [of "int p + j" e "2::real"] by (cases "e < int p + j") simp_all
  then obtain d where d: "j - (e - int p + 1) = int d"
    by (metis diff_add_cancel diff_diff_eq2 less_iff_succ_less_eq nonneg_int_cases diff_ge_0_iff_ge add.commute)
  have j: "j = (e - int p + 1) + int d" using d by simp
  have pj: "(2::real) powi j = 2 ^ d * 2 powi (e - int p + 1)"
    by (subst j) (simp add: power_int_add)
  have "x / 2 powi (e - int p + 1) = of_int (m * 2 ^ d)"
    unfolding x pj by simp
  then have "round_to p x = of_int (m * 2 ^ d) * 2 powi (e - int p + 1)"
    using False by (simp add: round_to_def e_def Let_def del: of_int_mult of_int_power)
  also have "\<dots> = x" unfolding x pj by simp
  finally show ?thesis .
qed

lemma round_even_near:
  assumes "\<bar>t - of_int k\<bar> < 1 / 2"
  shows "round_even t = k"
proof -
  have "of_int (round_even t) \<le> t + 1 / 2" "t - 1 / 2 \<le> of_int (round_even t)"
    by (rule round_even_bounds)+
  with assms have "\<bar>real_of_int (round_even t) - of_int k\<bar> < 1" by linarith
  then have "\<bar>real_of_int (round_even t - k)\<bar> < 1" by simp
  then have "\<bar>round_even t - k\<bar> < 1" by (simp only: of_int_abs [symmetric] of_int_less_1_iff)
  then show ?thesis by simp
qed

lemma round_to_eval:
  assumes "2 powi e \<le> \<bar>x\<bar>" "\<bar>x\<bar> < 2 powi (e + 1)"
    and "\<bar>x / 2 powi (e - int p + 1) - of_int k\<bar> < 1 / 2"
  shows "round_to p x = of_int k * 2 powi (e - int p + 1)"
  by (simp add: round_to_binade [OF assms(1,2)] round_even_near [OF assms(3)])

lemma f64_int: "\<bar>m\<bar> < 2 ^ 53 \<Longrightarrow> f64 (of_int m) = of_int m"
  unfolding f64_def using round_to_exact [of "of_int m" m 0 53] by simp

lemma f32_int: "\<bar>m\<bar> < 2 ^ 24 \<Longrightarrow> f32 (of_int m) = of_int m"
  unfolding f32_def using round_to_exact [of "of_int m" m 0 24] by simp

lemma f64_dyadic: "\<bar>m\<bar> < 2 ^ 53 \<Longrightarrow> f64 (of_int m / 2 ^ j) = of_int m / 2 ^ j"
  unfolding f64_def using round_to_exact [of "of_int m / 2 ^ j" m "- int j" 53]
  by (simp add: power_int_minus field_simps)

lemma f32_dyadic: "\<bar>m\<bar> < 2 ^ 24 \<Longrightarrow> f32 (of_int m / 2 ^ j) = of_int m / 2 ^ j"
  unfolding f32_def using round_to_exact [of "of_int m / 2 ^ j" m "- int j" 24]
  by (simp add: power_int_minus field_simps)

lemma f64_mono: "x \<le> y \<Longrightarrow> f64 x \<le> f64 y"
  unfolding f64_def by (rule round_to_mono) simp_all

lemma f32_mono: "x \<le> y \<Longrightarrow> f32 x \<le> f32 y"
  unfolding f32_def by (rule round_to_mono) simp_all

lemma f64_minus: "f64 (- x) = - f64 x"
  by (simp add: f64_def round_to_minus)

lemma f32_minus: "f32 (- x) = - f32 x"
  by (simp add: f32_def round_to_minus)

lemma f32_15: "f32 15 = 15"
  using f32_int [of 15] by simp

lemma f32_10: "f32 10 = 10"
  using f32_int [of 10] by simp

lemma f64_10: "f64 10 = 10"
  using f64_int [of 10] by simp

lemma f64_half: "f64 (1 / 2) = 1 / 2"
  using f64_dyadic [of 1 1] by simp

lemma f64_0: "f64 0 = 0"
  by (simp add: f64_def)

lemma f32_0: "f32 0 = 0"
  by (simp add: f32_def)

lemma round_to_upper: "\<bar>round_to p x\<bar> \<le> \<bar>x\<bar> * (1 + 1 / 2 ^ p)"
  using round_to_error [of p x] by (simp add: algebra_simps)

lemma round_to_lower: "\<bar>x\<bar> * (1 - 1 / 2 ^ p) \<le> \<bar>round_to p x\<bar>"
  using round_to_error [of p x] by (simp add: algebra_simps)

lemma round_to_pos_bounds:
  assumes "0 \<le> x" "0 < p"
  shows "x * (1 - 1 / 2 ^ p) \<le> round_to p x" "round_to p x \<le> x * (1 + 1 / 2 ^ p)"
  using round_to_error [of p x] assms by (simp_all add: algebra_simps)

lemma f64_bounds:
  assumes "0 \<le> x"
  shows "x * (1 - 1 / 2 ^ 53) \<le> f64 x" "f64 x \<le> x * (1 + 1 / 2 ^ 53)" "0 \<le> f64 x"
  using round_to_pos_bounds [OF assms, of 53] round_to_nonneg [OF assms, of 53]
  by (simp_all add: f64_def)

lemma f64_upper: "\<bar>f64 x\<bar> \<le> \<bar>x\<bar> * (1 + 1 / 2 ^ 53)"
  unfolding f64_def by (rule round_to_upper)

lemma f64_lower: "\<bar>x\<bar> * (1 - 1 / 2 ^ 53) \<le> \<bar>f64 x\<bar>"
  unfolding f64_def by (rule round_to_lower)

lemma f32_upper: "\<bar>f32 x\<bar> \<le> \<bar>x\<bar> * (1 + 1 / 2 ^ 24)"
  unfolding f32_def by (rule round_to_upper)

lemma f32_lower: "\<bar>x\<bar> * (1 - 1 / 2 ^ 24) \<le> \<bar>f32 x\<bar>"
  unfolding f32_def by (rule round_to_lower)

lemma sum_squares_bounds:
  fixes a b c :: real
  defines "L \<equiv> a * a + b * b + c * c"
  defines "q \<equiv> f64 (f64 (f64 (a * a) + f64 (b * b)) + f64 (c * c))"
  shows "L * (1 - 1 / 2 ^ 53) ^ 3 \<le> q" "q \<le> L * (1 + 1 / 2 ^ 53) ^ 3" "0 \<le> q"
proof -
  define lo :: real where "lo = 1 - 1 / 2 ^ 53"
  define hi :: real where "hi = 1 + 1 / 2 ^ 53"
  have lo: "0 \<le> lo" "lo \<le> 1" and hi: "1 \<le> hi" by (simp_all add: lo_def hi_def)
  have A: "a * a * lo \<le> f64 (a * a)" "f64 (a * a) \<le> a * a * hi" "0 \<le> f64 (a * a)"
    using f64_bounds [of "a * a"] by (simp_all add: lo_def hi_def)
  have B: "b * b * lo \<le> f64 (b * b)" "f64 (b * b) \<le> b * b * hi" "0 \<le> f64 (b * b)"
    using f64_bounds [of "b * b"] by (simp_all add: lo_def hi_def)
  have C: "c * c * lo \<le> f64 (c * c)" "f64 (c * c) \<le> c * c * hi" "0 \<le> f64 (c * c)"
    using f64_bounds [of "c * c"] by (simp_all add: lo_def hi_def)
  define t1 where "t1 = f64 (a * a) + f64 (b * b)"
  have t1: "(a * a + b * b) * lo \<le> t1" "t1 \<le> (a * a + b * b) * hi" "0 \<le> t1"
    using A B by (simp_all add: t1_def algebra_simps)
  have T1: "t1 * lo \<le> f64 t1" "f64 t1 \<le> t1 * hi" "0 \<le> f64 t1"
    using f64_bounds [OF t1(3)] by (simp_all add: lo_def hi_def)
  have "(a * a + b * b) * lo * lo \<le> t1 * lo" using t1(1) lo(1) by (rule mult_right_mono)
  with T1(1) have l1: "(a * a + b * b) * lo * lo \<le> f64 t1" by linarith
  have "t1 * hi \<le> (a * a + b * b) * hi * hi" using t1(2) hi by (intro mult_right_mono) simp_all
  with T1(2) have h1: "f64 t1 \<le> (a * a + b * b) * hi * hi" by linarith
  define t2 where "t2 = f64 t1 + f64 (c * c)"
  have "c * c * lo * lo \<le> c * c * lo"
    using lo by (intro mult_left_le) simp_all
  then have l2: "L * lo * lo \<le> t2" using l1 C(1) by (simp add: t2_def L_def algebra_simps)
  have "0 \<le> c * c * hi" using hi by simp
  then have "c * c * hi * 1 \<le> c * c * hi * hi" using hi by (intro mult_left_mono)
  then have "c * c * hi \<le> c * c * hi * hi" by simp
  then have h2: "t2 \<le> L * hi * hi" using h1 C(2) by (simp add: t2_def L_def algebra_simps)
  have t2: "0 \<le> t2" using T1(3) C(3) by (simp add: t2_def)
  have T2: "t2 * lo \<le> f64 t2" "f64 t2 \<le> t2 * hi" "0 \<le> f64 t2"
    using f64_bounds [OF t2] by (simp_all add: lo_def hi_def)
  have "L * lo * lo * lo \<le> t2 * lo" using l2 lo(1) by (rule mult_right_mono)
  with T2(1) have "L * lo ^ 3 \<le> f64 t2" by (simp add: power3_eq_cube algebra_simps)
  then show "L * (1 - 1 / 2 ^ 53) ^ 3 \<le> q" by (simp add: q_def t2_def t1_def lo_def)
  have "t2 * hi \<le> L * hi * hi * hi" using h2 hi by (intro mult_right_mono) simp_all
  with T2(2) have "f64 t2 \<le> L * hi ^ 3" by (simp add: power3_eq_cube algebra_simps)
  then show "q \<le> L * (1 + 1 / 2 ^ 53) ^ 3" by (simp add: q_def t2_def t1_def hi_def)
  show "0 \<le> q" using T2(3) by (simp add: q_def t2_def t1_def)
qed

subsection \<open>Mouse gravity\<close>

lemma gravity_body_length: "length (gravity_body m i xs) = length xs"
  by (simp add: gravity_body_def Let_def)

lemma gravity_body_other: "j < i \<or> i + 2 < j \<Longrightarrow> gravity_body m i xs ! j = xs ! j"
  by (auto simp add: gravity_body_def Let_def)

lemma gravity_body_at:
  "3 * p + 2 < length xs \<Longrightarrow>
   particle (gravity_body m (3 * p) xs) p = gravity_particle m (particle xs p)"
  by (simp add: gravity_body_def particle_def distanceTo_def gravity_particle_def Let_def)

lemma gravity_after:
  assumes len: "length xs = 3 * n"
  shows "q \<le> n \<Longrightarrow>
     length (after_particles (gravity_body m) q xs) = 3 * n \<and>
     (\<forall>j \<ge> 3 * q. after_particles (gravity_body m) q xs ! j = xs ! j) \<and>
     (\<forall>p < q. particle (after_particles (gravity_body m) q xs) p = gravity_particle m (particle xs p))"
proof (induction q)
  case 0
  then show ?case by (simp add: after_0 len)
next
  case (Suc q)
  let ?G = "after_particles (gravity_body m) q xs"
  from Suc have IH: "length ?G = 3 * n" "\<forall>j \<ge> 3 * q. ?G ! j = xs ! j"
    "\<forall>p < q. particle ?G p = gravity_particle m (particle xs p)" and q: "q < n" by auto
  have step: "after_particles (gravity_body m) (Suc q) xs = gravity_body m (3 * q) ?G"
    by (rule after_Suc)
  have a: "length (gravity_body m (3 * q) ?G) = 3 * n"
    by (simp add: gravity_body_length IH(1))
  have b: "\<forall>j \<ge> 3 * Suc q. gravity_body m (3 * q) ?G ! j = xs ! j"
    using IH(2) by (simp add: gravity_body_other)
  have c: "particle (gravity_body m (3 * q) ?G) p = gravity_particle m (particle xs p)"
    if "p < Suc q" for p
  proof (cases "p = q")
    case True
    have "particle ?G q = particle xs q"
      using IH(2) by (intro particle_cong) simp
    moreover have "3 * q + 2 < length ?G" using q IH(1) by simp
    ultimately show ?thesis using True by (simp add: gravity_body_at)
  next
    case False
    with that have pq: "p < q" by simp
    have "particle (gravity_body m (3 * q) ?G) p = particle ?G p"
      using pq by (intro particle_cong) (simp add: gravity_body_other)
    then show ?thesis using IH(3) pq by simp
  qed
  show ?case unfolding step using a b c by blast
qed

lemma gravity_loop_particle:
  assumes "length xs = 3 * n" "p < n"
  shows "particle (gravity_loop m xs) p = gravity_particle m (particle xs p)"
    and "length (gravity_loop m xs) = length xs"
  using gravity_after [OF assms(1), of n m] assms
  by (simp_all add: gravity_loop_def for3_after)

text \<open>
  Claim C7. The mouse-gravity step (\<^verbatim>\<open>applyMouseGravity\<close>, called by \<^verbatim>\<open>animate\<close> on every
  frame) moves each particle whose distance \<open>d\<close> from the cursor position \<^verbatim>\<open>mouseWorld\<close>
  satisfies \<open>0.1 < d < 5\<close> towards the cursor, by the displacement to the cursor scaled by
  \<open>0.005 / d\<^sup>2\<close>; every particle at distance at most 0.1 or at least 5 keeps its position.
\<close>

theorem mouse_gravity_pull:
  assumes "particleSystem s = Some ps" and "length (positions ps) = 3 * n" and "p < n"
  shows "\<exists>ps'. applyMouseGravity s = s\<lparr> particleSystem := Some ps' \<rparr> \<and>
           length (positions ps') = 3 * n \<and>
           (let P = particle (positions ps) p; m = mouseWorld s; d = distanceTo m P
            in particle (positions ps') p =
                 (if 0.1 < d \<and> d < 5 then
                    (vec_x P + (vec_x m - vec_x P) * (0.005 / d\<^sup>2),
                     vec_y P + (vec_y m - vec_y P) * (0.005 / d\<^sup>2),
                     vec_z P + (vec_z m - vec_z P) * (0.005 / d\<^sup>2))
                  else P))"
proof -
  let ?ps' = "ps\<lparr> positions := gravity_loop (mouseWorld s) (positions ps) \<rparr>"
  have "applyMouseGravity s = s\<lparr> particleSystem := Some ?ps' \<rparr>"
    using assms(1) by (simp add: applyMouseGravity_def)
  moreover have "length (positions ?ps') = 3 * n"
    using gravity_loop_particle(2) [OF assms(2,3)] assms(2) by simp
  moreover have "particle (positions ?ps') p =
      gravity_particle (mouseWorld s) (particle (positions ps) p)"
    using gravity_loop_particle(1) [OF assms(2,3)] by simp
  ultimately show ?thesis
    by (intro exI [of _ ?ps'])
       (auto simp add: gravity_particle_def mouseGravityStrength_def power2_eq_square Let_def)
qed

theorem mouse_gravity_pull_witness:
  "\<exists>ps'. applyMouseGravity
            ((initial_state (\<lambda>k. 1 / 2))\<lparr> particleSystem :=
                Some (small_system ''neural'' [1, 0, 0, 10, 0, 0] None) \<rparr>) =
          (initial_state (\<lambda>k. 1 / 2))\<lparr> particleSystem := Some ps' \<rparr> \<and>
          particle (positions ps') 0 = (0.995, 0, 0) \<and>
          particle (positions ps') 1 = (10, 0, 0)"
proof -
  let ?ps = "small_system ''neural'' [1, 0, 0, 10, 0, 0] None"
  let ?s = "(initial_state (\<lambda>k. 1 / 2))\<lparr> particleSystem := Some ?ps \<rparr>"
  have h: "particleSystem ?s = Some ?ps" "length (positions ?ps) = 3 * 2"
    by (simp_all add: small_system_def)
  have m: "mouseWorld ?s = (0, 0, 0)" by (simp add: initial_state_def)
  have P: "particle (positions ?ps) 0 = (1, 0, 0)" "particle (positions ?ps) 1 = (10, 0, 0)"
    by (simp_all add: small_system_def particle_def)
  have d: "distanceTo (0, 0, 0) (1, 0, 0) = 1" "distanceTo (0, 0, 0) (10, 0, 0) = 10"
    by (simp_all add: distanceTo_def)
  from mouse_gravity_pull [OF h, of 0] obtain ps' where
    a: "applyMouseGravity ?s = ?s\<lparr> particleSystem := Some ps' \<rparr>"
    and b: "particle (positions ps') 0 = (0.995, 0, 0)"
    unfolding Let_def P m d by auto
  from mouse_gravity_pull [OF h, of 1] obtain ps'' where
    c: "applyMouseGravity ?s = ?s\<lparr> particleSystem := Some ps'' \<rparr>"
    and e: "particle (positions ps'') 1 = (10, 0, 0)"
    unfolding Let_def P m d by auto
  from a c have "particleSystem (?s\<lparr> particleSystem := Some ps' \<rparr>) =
                 particleSystem (?s\<lparr> particleSystem := Some ps'' \<rparr>)" by simp
  then have "ps'' = ps'" by simp
  with a b e show ?thesis by auto
qed

subsection \<open>Particle buffers as \<^verbatim>\<open>createParticlesForPreset\<close> builds them\<close>


lemma createParticlesForPreset_body_length:
  "length (fst (createParticlesForPreset_body viz fs R i \<sigma>)) = length (fst \<sigma>)"
  "length (fst (snd (createParticlesForPreset_body viz fs R i \<sigma>))) = length (fst (snd \<sigma>))"
  by (cases \<sigma>; simp add: createParticlesForPreset_body_def Let_def split: prod.splits)+

lemma createParticlesForPreset_loop_length:
  "length (fst (fold (createParticlesForPreset_body viz fs R) is \<sigma>)) = length (fst \<sigma>) \<and>
   length (fst (snd (fold (createParticlesForPreset_body viz fs R) is \<sigma>))) = length (fst (snd \<sigma>))"
  by (induction "is" arbitrary: \<sigma>) (simp_all add: createParticlesForPreset_body_length)

lemma createParticlesForPreset_buffers:
  "\<exists>ps vs. particleSystem (createParticlesForPreset pr s) = Some ps \<and>
      velocities ps = Some vs \<and> userData_preset ps = Some pr \<and>
      length (positions ps) = 3 * particleCount pr \<and> length vs = 3 * particleCount pr"
proof -
  let ?\<sigma> = "(replicate (particleCount pr * 3) 0, replicate (particleCount pr * 3) 0,
             replicate (particleCount pr) 0, random_used s) :: real list \<times> real list \<times> real list \<times> nat"
  let ?F = "fold (createParticlesForPreset_body (currentViz s) (fieldSize (CONFIG s)) (random_seq s))
              [0..<particleCount pr] ?\<sigma>"
  obtain xs vs mix k where F: "?F = (xs, vs, mix, k)" by (cases ?F) auto
  have "length (fst ?F) = 3 * particleCount pr" "length (fst (snd ?F)) = 3 * particleCount pr"
    using createParticlesForPreset_loop_length
      [of "currentViz s" "fieldSize (CONFIG s)" "random_seq s" "[0..<particleCount pr]" ?\<sigma>]
    by simp_all
  then have "length xs = 3 * particleCount pr" "length vs = 3 * particleCount pr"
    using F by simp_all
  then show ?thesis
    using F by (simp add: createParticlesForPreset_def for1_fold Let_def)
qed

lemma random_coordinate_range:
  assumes "0 \<le> r" "r < 1"
  shows "- 10 \<le> random_coordinate r" "random_coordinate r \<le> 10"
proof -
  define t where "t = r - 0.5"
  have t: "- (1 / 2) \<le> t" "t \<le> 1 / 2" using assms by (simp_all add: t_def)
  have a: "- (1 / 2) \<le> f64 t" "f64 t \<le> 1 / 2"
    using f64_mono [OF t(1)] f64_mono [OF t(2)] by (simp_all only: f64_minus f64_half)
  then have b: "- 10 \<le> f64 t * 20" "f64 t * 20 \<le> 10" by simp_all
  have c: "- 10 \<le> f64 (f64 t * 20)" "f64 (f64 t * 20) \<le> 10"
    using f64_mono [OF b(1)] f64_mono [OF b(2)] by (simp_all only: f64_minus f64_10)
  have "- 10 \<le> f32 (f64 (f64 t * 20))" "f32 (f64 (f64 t * 20)) \<le> 10"
    using f32_mono [OF c(1)] f32_mono [OF c(2)] by (simp_all only: f32_minus f32_10)
  then show "- 10 \<le> random_coordinate r" "random_coordinate r \<le> 10"
    unfolding random_coordinate_def t_def .
qed

lemma f64_002: "f64 0.02 = 5764607523034235 / 2 ^ 58"
  unfolding f64_def using round_to_eval [of "- 6" "0.02" 53 5764607523034235]
  by (simp add: power_int_minus)

lemma f64_003: "f64 0.03 = 8646911284551352 / 2 ^ 58"
  unfolding f64_def using round_to_eval [of "- 6" "0.03" 53 8646911284551352]
  by (simp add: power_int_minus)

lemma fall_velocity_range:
  assumes "0 \<le> r" "r < 1"
  shows "5368709 / 2 ^ 28 \<le> - fall_velocity r" "- fall_velocity r \<le> 13421773 / 2 ^ 28"
proof -
  define a :: real where "a = 5764607523034235 / 2 ^ 58"
  define b :: real where "b = 8646911284551352 / 2 ^ 58"
  have fa: "f64 a = a" unfolding a_def using f64_dyadic [of 5764607523034235 58] by simp
  have fb: "f64 b = b" unfolding b_def using f64_dyadic [of 8646911284551352 58] by simp
  have b: "0 \<le> b" by (simp add: b_def)
  have e: "fall_velocity r = f32 (f64 (- a - f64 (r * b)))"
    unfolding fall_velocity_def f64_002 f64_003 a_def b_def ..
  have "- a - f64 (r * b) = - (a + f64 (r * b))" by simp
  then have "- fall_velocity r = f32 (f64 (a + f64 (r * b)))"
    unfolding e by (simp only: f64_minus f32_minus minus_minus)
  moreover have rb: "0 \<le> r * b" "r * b \<le> b" using assms b by (simp_all add: mult_left_le_one_le)
  have frb: "0 \<le> f64 (r * b)" "f64 (r * b) \<le> b"
    using f64_mono [OF rb(1)] f64_mono [OF rb(2)] by (simp_all only: f64_0 fb)
  then have s: "a \<le> a + f64 (r * b)" "a + f64 (r * b) \<le> a + b" by simp_all
  define c :: real where "c = 7205759403792794 / 2 ^ 57"
  have fc: "f64 c = c" unfolding c_def using f64_dyadic [of 7205759403792794 57] by simp
  have "a + b \<le> c" by (simp add: a_def b_def c_def)
  with s(2) have s2: "a + f64 (r * b) \<le> c" by linarith
  have "f32 (f64 a) \<le> f32 (f64 (a + f64 (r * b)))"
    "f32 (f64 (a + f64 (r * b))) \<le> f32 c"
    using f32_mono [OF f64_mono [OF s(1)]] f32_mono [OF f64_mono [OF s2]] by (simp_all only: fc)
  moreover have "f32 (f64 a) = 5368709 / 2 ^ 28"
    unfolding fa unfolding a_def f32_def
    using round_to_eval [of "- 6" "5764607523034235 / 2 ^ 58" 24 10737418]
    by (simp add: power_int_minus)
  moreover have "f32 c = 13421773 / 2 ^ 28"
    unfolding c_def f32_def using round_to_eval [of "- 5" "7205759403792794 / 2 ^ 57" 24 13421773]
    by (simp add: power_int_minus)
  ultimately show "5368709 / 2 ^ 28 \<le> - fall_velocity r" "- fall_velocity r \<le> 13421773 / 2 ^ 28"
    by simp_all
qed

lemma matrix_body_velocity:
  "createParticlesForPreset_body ''matrix'' fs R i (xs, vs, mix, k) =
     (xs[i * 3 := random_coordinate (R k), i * 3 + 1 := f32 (f64 (f64 (R (k + 1) * 20) - 5)),
         i * 3 + 2 := random_coordinate (R (k + 2))],
      vs[i * 3 + 1 := fall_velocity (R (k + 3))], mix[i := R (k + 4)], k + 5)"
  by (simp add: createParticlesForPreset_body_def random_coordinate_def fall_velocity_def Let_def)

lemma matrix_creation_loop:
  assumes "length vs = 3 * n"
  shows "q \<le> n \<Longrightarrow>
    (case fold (createParticlesForPreset_body ''matrix'' fs R) [0..<q] (xs, vs, mix, k) of
       (xs', vs', mix', k') \<Rightarrow>
         length vs' = 3 * n \<and> k' = k + 5 * q \<and>
         (\<forall>p < q. vs' ! (3 * p + 1) = fall_velocity (R (k + 5 * p + 3))))"
proof (induction q)
  case 0
  then show ?case by (simp add: assms)
next
  case (Suc q)
  obtain xs' vs' mix' k' where
    F: "fold (createParticlesForPreset_body ''matrix'' fs R) [0..<q] (xs, vs, mix, k) = (xs', vs', mix', k')"
    by (cases "fold (createParticlesForPreset_body ''matrix'' fs R) [0..<q] (xs, vs, mix, k)") auto
  with Suc have IH: "length vs' = 3 * n" "k' = k + 5 * q"
    "\<forall>p < q. vs' ! (3 * p + 1) = fall_velocity (R (k + 5 * p + 3))" and q: "q < n" by auto
  have "(vs'[q * 3 + 1 := fall_velocity (R (k' + 3))]) ! (3 * p + 1) =
          fall_velocity (R (k + 5 * p + 3))" if "p < Suc q" for p
  proof (cases "p = q")
    case True
    then show ?thesis using q IH(1,2) by (simp add: mult.commute)
  next
    case False
    with that have "p < q" by simp
    then show ?thesis using IH(3) by (simp add: nth_list_update)
  qed
  then show ?case using IH(1,2) by (simp add: F matrix_body_velocity)
qed

lemma createParticlesForPreset_fall_speed:
  assumes "currentViz s = ''matrix''" and "unit_interval (random_seq s)"
    and "particleSystem (createParticlesForPreset pr s) = Some ps" and "p < particleCount pr"
  shows "5368709 / 2 ^ 28 \<le> fall_speed (velocities ps) p \<and>
         fall_speed (velocities ps) p \<le> 13421773 / 2 ^ 28"
proof -
  let ?n = "particleCount pr" and ?R = "random_seq s"
  let ?\<sigma> = "(replicate (?n * 3) 0, replicate (?n * 3) 0, replicate ?n 0, random_used s)
              :: real list \<times> real list \<times> real list \<times> nat"
  let ?F = "fold (createParticlesForPreset_body ''matrix'' (fieldSize (CONFIG s)) ?R) [0..<?n] ?\<sigma>"
  obtain xs vs mix k where F: "?F = (xs, vs, mix, k)" by (cases ?F) auto
  have "length (replicate (?n * 3) (0::real)) = 3 * ?n" by simp
  from matrix_creation_loop [OF this, where q = ?n and fs = "fieldSize (CONFIG s)" and R = ?R
      and xs = "replicate (?n * 3) 0" and mix = "replicate ?n 0" and k = "random_used s"] F assms(4)
  have v: "vs ! (3 * p + 1) = fall_velocity (?R (random_used s + 5 * p + 3))" by auto
  have ps: "velocities ps = Some vs"
    using assms(1,3) F by (auto simp add: createParticlesForPreset_def for1_fold Let_def)
  from assms(2) have r: "0 \<le> ?R (random_used s + 5 * p + 3)" "?R (random_used s + 5 * p + 3) < 1"
    by (simp_all add: unit_interval_def)
  have "fall_speed (velocities ps) p = - fall_velocity (?R (random_used s + 5 * p + 3))"
    unfolding ps fall_speed_def option.case v by simp
  then show ?thesis using fall_velocity_range [OF r] by simp
qed

subsection \<open>Matrix rain\<close>

lemma matrix_body_length: "length (fst (matrix_body R vel i \<sigma>)) = length (fst \<sigma>)"
  by (cases \<sigma>) (simp add: matrix_body_def Let_def)

lemma matrix_body_other:
  "j < i \<or> i + 2 < j \<Longrightarrow> fst (matrix_body R vel i \<sigma>) ! j = fst \<sigma> ! j"
  by (cases \<sigma>) (auto simp add: matrix_body_def Let_def)

lemma matrix_body_at:
  assumes "3 * p + 2 < length xs"
  shows "particle (fst (matrix_body R vel (3 * p) (xs, k))) p =
           (if fallen vel xs p < - 10
            then (random_coordinate (R k), 15, random_coordinate (R (k + 1)))
            else (xs ! (3 * p), fallen vel xs p, xs ! (3 * p + 2)))"
    and "snd (matrix_body R vel (3 * p) (xs, k)) =
           (if fallen vel xs p < - 10 then k + 2 else k)"
  using assms
  by (auto simp add: matrix_body_def particle_def fall_speed_def fallen_def random_coordinate_def
      f32_15 Let_def split: option.splits)

lemma matrix_after:
  assumes len: "length xs = 3 * n"
  shows "q \<le> n \<Longrightarrow>
     length (fst (after_particles (matrix_body R vel) q (xs, k))) = 3 * n \<and>
     (\<forall>j \<ge> 3 * q. fst (after_particles (matrix_body R vel) q (xs, k)) ! j = xs ! j) \<and>
     snd (after_particles (matrix_body R vel) q (xs, k)) = draws_before vel xs k q \<and>
     (\<forall>p < q. particle (fst (after_particles (matrix_body R vel) q (xs, k))) p =
                 matrix_particle R vel xs k p)"
proof (induction q)
  case 0
  then show ?case by (simp add: after_0 len draws_before_def)
next
  case (Suc q)
  let ?M = "after_particles (matrix_body R vel) q (xs, k)"
  obtain ys k' where M: "?M = (ys, k')" by (cases ?M)
  from Suc M have IH: "length ys = 3 * n" "\<forall>j \<ge> 3 * q. ys ! j = xs ! j"
    "k' = draws_before vel xs k q"
    "\<forall>p < q. particle ys p = matrix_particle R vel xs k p" and q: "q < n" by auto
  have step: "after_particles (matrix_body R vel) (Suc q) (xs, k) = matrix_body R vel (3 * q) (ys, k')"
    by (simp add: after_Suc M)
  have in_range: "3 * q + 2 < length ys" using q IH(1) by simp
  have same: "ys ! (3 * q) = xs ! (3 * q)" "ys ! (3 * q + 1) = xs ! (3 * q + 1)"
    "ys ! (3 * q + 2) = xs ! (3 * q + 2)"
    using IH(2) by simp_all
  have a: "length (fst (matrix_body R vel (3 * q) (ys, k'))) = 3 * n"
    by (simp add: matrix_body_length IH(1))
  have b: "\<forall>j \<ge> 3 * Suc q. fst (matrix_body R vel (3 * q) (ys, k')) ! j = xs ! j"
    using IH(2) by (simp add: matrix_body_other)
  have c: "snd (matrix_body R vel (3 * q) (ys, k')) = draws_before vel xs k (Suc q)"
    using matrix_body_at(2) [OF in_range, of R vel k'] same IH(3)
    by (simp add: draws_before_def resets_def fallen_def)
  have d: "particle (fst (matrix_body R vel (3 * q) (ys, k'))) p = matrix_particle R vel xs k p"
    if "p < Suc q" for p
  proof (cases "p = q")
    case True
    show ?thesis
      using matrix_body_at(1) [OF in_range, of R vel k'] same IH(3) True
      by (simp add: matrix_particle_def resets_def fallen_def Let_def)
  next
    case False
    with that have pq: "p < q" by simp
    have "particle (fst (matrix_body R vel (3 * q) (ys, k'))) p = particle ys p"
      using pq by (intro particle_cong) (simp add: matrix_body_other)
    then show ?thesis using IH(4) pq by simp
  qed
  show ?case unfolding step using a b c d by blast
qed

lemma matrix_loop_particle:
  assumes "length xs = 3 * n" "p < n"
  shows "particle (fst (matrix_loop R vel (xs, k))) p = matrix_particle R vel xs k p"
    and "length (fst (matrix_loop R vel (xs, k))) = length xs"
    and "snd (matrix_loop R vel (xs, k)) = draws_before vel xs k n"
  using matrix_after [OF assms(1), of n R vel k] assms
  by (simp_all add: matrix_loop_def for3_after)

lemma draws_before_mono:
  assumes "p < n" "resets vel xs p"
  shows "draws_before vel xs k p + 2 \<le> draws_before vel xs k n"
proof -
  have "[0..<n] = [0..<p] @ p # [Suc p..<n]"
    using assms(1) by (metis less_imp_le_nat upt_add_eq_append upt_conv_Cons le0 add_0 le_add_diff_inverse)
  then have "length (filter (resets vel xs) [0..<n]) \<ge> length (filter (resets vel xs) [0..<p]) + 1"
    using assms(2) by simp
  then show ?thesis by (simp add: draws_before_def)
qed

text \<open>
  Claim C5, corrected. In the matrix visualization a frame lowers the \<open>y\<close> coordinate of every
  particle by its fall speed: the stored velocity component, which \<^verbatim>\<open>createParticlesForPreset\<close>
  sets to \<^verbatim>\<open>-0.02 - Math.random() * 0.03\<close>, is added, and 0.03 is subtracted when there is no
  velocity attribute; the cell receives the float nearest to the double difference. A
  particle whose stored \<open>y\<close> is below \<open>-10\<close> is reset in the same frame to \<open>y = 15\<close> with \<open>x\<close>
  and \<open>z\<close> computed from two random values drawn during this frame, both in the closed
  interval from \<open>-10\<close> to \<open>10\<close>; the \<open>x\<close> and \<open>z\<close> of every other particle are unchanged.

  The interval is closed at 10: the float nearest to \<open>(r - 0.5) * 20\<close> is 10 for a random value
  \<open>r\<close> close enough to 1.
\<close>

theorem matrix_rain_frame:
  assumes "currentViz s = ''matrix''" and "particleSystem s = Some ps"
    and "length (positions ps) = 3 * n" and "p < n" and "unit_interval (random_seq s)"
  shows "\<exists>s' ps'. animateParticles s = (Normal, s') \<and> particleSystem s' = Some ps' \<and>
           length (positions ps') = 3 * n \<and>
           (let xs = positions ps;
                y = f32 (f64 (xs ! (3 * p + 1) - fall_speed (velocities ps) p));
                P' = particle (positions ps') p
            in if y < - 10 then
                 vec_y P' = 15 \<and>
                 (\<exists>d. random_used s \<le> d \<and> d + 2 \<le> random_used s' \<and>
                      vec_x P' = f32 (f64 (f64 (random_seq s d - 0.5) * 20)) \<and>
                      vec_z P' = f32 (f64 (f64 (random_seq s (d + 1) - 0.5) * 20))) \<and>
                 - 10 \<le> vec_x P' \<and> vec_x P' \<le> 10 \<and> - 10 \<le> vec_z P' \<and> vec_z P' \<le> 10
               else P' = (xs ! (3 * p), y, xs ! (3 * p + 2)))"
proof -
  let ?R = "random_seq s" and ?k = "random_used s" and ?xs = "positions ps"
  let ?vel = "velocities ps"
  let ?M = "matrix_loop ?R ?vel (?xs, ?k)"
  let ?ps' = "ps\<lparr> positions := fst ?M \<rparr>"
  let ?s' = "s\<lparr> particleSystem := Some ?ps', random_used := snd ?M \<rparr>"
  have run: "animateParticles s = (Normal, ?s')"
    using assms(1,2) by (simp add: animateParticles_def split: prod.splits)
  have len: "length (positions ?ps') = 3 * n"
    using matrix_loop_particle(2) [OF assms(3,4)] assms(3) by simp
  have part: "particle (positions ?ps') p = matrix_particle ?R ?vel ?xs ?k p"
    using matrix_loop_particle(1) [OF assms(3,4)] by simp
  have used: "random_used ?s' = draws_before ?vel ?xs ?k n"
    using matrix_loop_particle(3) [OF assms(3,4)] by simp
  have range: "- 10 \<le> random_coordinate (?R d)" "random_coordinate (?R d) \<le> 10" for d
    using assms(5) by (simp_all add: random_coordinate_range unit_interval_def)
  have concl: "(let xs = ?xs;
                y = f32 (f64 (xs ! (3 * p + 1) - fall_speed ?vel p));
                P' = particle (positions ?ps') p
            in if y < - 10 then
                 vec_y P' = 15 \<and>
                 (\<exists>d. ?k \<le> d \<and> d + 2 \<le> random_used ?s' \<and>
                      vec_x P' = f32 (f64 (f64 (?R d - 0.5) * 20)) \<and>
                      vec_z P' = f32 (f64 (f64 (?R (d + 1) - 0.5) * 20))) \<and>
                 - 10 \<le> vec_x P' \<and> vec_x P' \<le> 10 \<and> - 10 \<le> vec_z P' \<and> vec_z P' \<le> 10
               else P' = (xs ! (3 * p), y, xs ! (3 * p + 2)))"
  proof (cases "resets ?vel ?xs p")
    case True
    let ?d = "draws_before ?vel ?xs ?k p"
    have P': "particle (positions ?ps') p =
                (random_coordinate (?R ?d), 15, random_coordinate (?R (?d + 1)))"
      using part True by (simp add: matrix_particle_def Let_def)
    have d: "?k \<le> ?d" "?d + 2 \<le> random_used ?s'"
      using draws_before_mono [OF assms(4) True, of ?k] used by (simp_all add: draws_before_def)
    have ex: "\<exists>d. ?k \<le> d \<and> d + 2 \<le> random_used ?s' \<and>
                random_coordinate (?R ?d) = f32 (f64 (f64 (?R d - 0.5) * 20)) \<and>
                random_coordinate (?R (?d + 1)) = f32 (f64 (f64 (?R (d + 1) - 0.5) * 20))"
      using d by (intro exI [of _ ?d]) (simp add: random_coordinate_def)
    have y: "f32 (f64 (?xs ! (3 * p + 1) - fall_speed ?vel p)) < - 10"
      using True by (simp add: resets_def fallen_def)
    show ?thesis
      unfolding Let_def P' fst_conv snd_conv using y ex range [of ?d] range [of "?d + 1"]
      by (simp only: if_True simp_thms)
  next
    case False
    then have y: "\<not> f32 (f64 (?xs ! (3 * p + 1) - fall_speed ?vel p)) < - 10"
      by (simp add: resets_def fallen_def)
    show ?thesis
      unfolding Let_def part using False y by (simp add: matrix_particle_def fallen_def)
  qed
  show ?thesis
    using run len concl by (intro exI [of _ ?s'] exI [of _ ?ps']) simp
qed

theorem matrix_rain_frame_witness:
  "\<exists>s' ps'. animateParticles
             ((initial_state (\<lambda>k. 1 / 2))\<lparr> currentViz := ''matrix'', particleSystem :=
                Some (small_system ''matrix'' [0, - 10, 0, 1, 5, 1]
                        (Some [0, - (1 / 32), 0, 0, - (1 / 4), 0])) \<rparr>) = (Normal, s') \<and>
           particleSystem s' = Some ps' \<and>
           particle (positions ps') 0 = (0, 15, 0) \<and>
           particle (positions ps') 1 = (1, 19 / 4, 1)"
proof -
  let ?ps = "small_system ''matrix'' [0, - 10, 0, 1, 5, 1] (Some [0, - (1 / 32), 0, 0, - (1 / 4), 0])"
  let ?s = "(initial_state (\<lambda>k. 1 / 2))\<lparr> currentViz := ''matrix'', particleSystem := Some ?ps \<rparr>"
  have h: "currentViz ?s = ''matrix''" "particleSystem ?s = Some ?ps"
    "length (positions ?ps) = 3 * 2"
    by (simp_all add: small_system_def)
  have u: "unit_interval (random_seq ?s)"
    by (simp add: initial_state_def unit_interval_def)
  have R: "random_seq ?s = (\<lambda>k. 1 / 2)" by (simp add: initial_state_def)
  have r: "f64 (- (321 / 32)) = - (321 / 32)" "f32 (- (321 / 32)) = - (321 / 32)"
    "f64 (19 / 4) = 19 / 4" "f32 (19 / 4) = 19 / 4"
    using f64_dyadic [of "- 321" 5] f32_dyadic [of "- 321" 5] f64_dyadic [of 19 2]
      f32_dyadic [of 19 2] by simp_all
  have f: "f32 (f64 (positions ?ps ! (3 * 0 + 1) - fall_speed (velocities ?ps) 0)) = - (321 / 32)"
    "f32 (f64 (positions ?ps ! (3 * 1 + 1) - fall_speed (velocities ?ps) 1)) = 19 / 4"
    "positions ?ps ! (3 * 1) = 1" "positions ?ps ! (3 * 1 + 2) = 1"
    by (simp_all add: small_system_def fall_speed_def r)
  have c: "f32 (f64 (f64 (1 / 2 - 0.5) * 20)) = 0"
    by (simp add: f64_0 f32_0)
  from matrix_rain_frame [OF h(1,2,3) _ u, of 0] obtain s' ps' where
    a: "animateParticles ?s = (Normal, s')" "particleSystem s' = Some ps'"
    and b: "particle (positions ps') 0 = (0, 15, 0)"
    unfolding Let_def f R c by (auto simp add: prod_eq_iff)
  from matrix_rain_frame [OF h(1,2,3) _ u, of 1] obtain s'' ps'' where
    c: "animateParticles ?s = (Normal, s'')" "particleSystem s'' = Some ps''"
    and e: "particle (positions ps'') 1 = (1, 19 / 4, 1)"
    unfolding Let_def f R by auto
  from a c have "ps'' = ps'" by simp
  with a b e show ?thesis by auto
qed

text \<open>
  A reset can store \<open>x = 10\<close> and \<open>z = 10\<close>, outside the half-open interval from \<open>-10\<close> to 10.
  The raindrop of \<open>late_draw\<close> falls from \<open>y = -10\<close> to \<open>-10.03125\<close> and is reset; both random
  values are \<open>1 - 1 / 2 ^ 30\<close>, which is less than 1, and \<open>(r - 0.5) * 20\<close> is the double
  \<open>10 - 5 / 2 ^ 28\<close>, whose nearest float is \<open>10\<close>.
\<close>

theorem matrix_reset_stores_10:
  "unit_interval (random_seq late_draw) \<and>
   animateParticles late_draw =
     (Normal, late_draw\<lparr> particleSystem :=
        Some ((small_system ''matrix'' [0, - 10, 0] (Some [0, - (1 / 32), 0]))
                \<lparr> positions := [10, 15, 10] \<rparr>),
        random_used := 2 \<rparr>)"
proof -
  have u: "unit_interval (random_seq late_draw)"
    by (simp add: late_draw_def initial_state_def unit_interval_def late_values_def)
  have fell: "f32 (f64 (- (321 / 32))) = - (321 / 32)"
    using f64_dyadic [of "- 321" 5] f32_dyadic [of "- 321" 5] by simp
  have a: "f64 (536870911 / 1073741824) = 536870911 / 1073741824"
    using f64_dyadic [of 536870911 30] by simp
  have b: "f64 (2684354555 / 268435456) = 2684354555 / 268435456"
    using f64_dyadic [of 2684354555 28] by simp
  have c: "f32 (2684354555 / 268435456) = 10"
    unfolding f32_def using round_to_eval [of 3 "2684354555 / 268435456" 24 10485760]
    by (simp add: power_int_minus)
  have body: "matrix_body late_values (Some [0, - (1 / 32), 0]) 0 ([0, - 10, 0], 0) =
                ([10, 15, 10], 2)"
    by (simp add: matrix_body_def late_values_def Let_def fell a b c f32_15)
  have len: "length [0, - 10, 0 :: real] = 3 * 1" by simp
  have loop: "matrix_loop late_values (Some [0, - (1 / 32), 0]) ([0, - 10, 0], 0) =
                ([10, 15, 10], 2)"
    unfolding matrix_loop_def prod.case len for3_after
    by (simp add: after_particles_def body)
  have "animateParticles late_draw =
     (Normal, late_draw\<lparr> particleSystem :=
        Some ((small_system ''matrix'' [0, - 10, 0] (Some [0, - (1 / 32), 0]))
                \<lparr> positions := [10, 15, 10] \<rparr>),
        random_used := 2 \<rparr>)"
    by (simp add: animateParticles_def late_draw_def initial_state_def small_system_def loop)
  with u show ?thesis by simp
qed

subsection \<open>Data storm\<close>









subsection \<open>Swarm\<close>

text \<open>
  The speed limit. With \<open>\<epsilon> = 1 / 2 ^ 53\<close> and \<open>\<eta> = 1 / 2 ^ 24\<close>, the square of the speed that a
  frame computes lies between \<open>(1 - \<epsilon>) ^ 5\<close> and \<open>(1 + \<epsilon>) ^ 5\<close> times the square of the length
  of the velocity; the division and the product of the limit multiply a component by a
  factor between \<open>(1 - \<epsilon>)\<^sup>2\<close> and \<open>(1 + \<epsilon>)\<^sup>2\<close>, the store by a factor between \<open>1 - \<eta>\<close> and
  \<open>1 + \<eta>\<close>; and \<open>f64 0.03\<close> is \<open>8646911284551352 / 2 ^ 58\<close>. So the stored velocity is never
  longer than \<open>0.03 * (1 + 1 / 2 ^ 23)\<close>, and a velocity that the limit rescales is stored with
  a length of at least \<open>0.03 * (1 - 1 / 2 ^ 23)\<close>.
\<close>

lemma computed_speed_bounds:
  fixes a b c :: real
  defines "L \<equiv> a * a + b * b + c * c"
  defines "s \<equiv> computed_speed (a, b, c)"
  shows "L * (1 - 1 / 2 ^ 53) ^ 5 \<le> s * s" "s * s \<le> L * (1 + 1 / 2 ^ 53) ^ 5" "0 \<le> s"
proof -
  define lo :: real where "lo = 1 - 1 / 2 ^ 53"
  define hi :: real where "hi = 1 + 1 / 2 ^ 53"
  define q where "q = f64 (f64 (f64 (a * a) + f64 (b * b)) + f64 (c * c))"
  have lo: "0 \<le> lo" and hi: "0 \<le> hi" by (simp_all add: lo_def hi_def)
  have q: "L * lo ^ 3 \<le> q" "q \<le> L * hi ^ 3" "0 \<le> q"
    using sum_squares_bounds [of a b c] by (simp_all add: q_def L_def lo_def hi_def)
  have s: "s = f64 (sqrt q)" by (simp add: s_def computed_speed_def q_def)
  have r: "0 \<le> sqrt q" using q(3) by simp
  have S: "sqrt q * lo \<le> s" "s \<le> sqrt q * hi" "0 \<le> s"
    using f64_bounds [OF r] by (simp_all add: s lo_def hi_def)
  have rr: "sqrt q * sqrt q = q" using q(3) by simp
  have "(sqrt q * lo) * (sqrt q * lo) \<le> s * s"
    using S(1,3) r lo by (intro mult_mono) simp_all
  then have "q * lo ^ 2 \<le> s * s" using rr by (simp add: power2_eq_square algebra_simps)
  moreover have "L * lo ^ 3 * lo ^ 2 \<le> q * lo ^ 2" using q(1) by (intro mult_right_mono) simp_all
  ultimately have "L * lo ^ 5 \<le> s * s" by (simp add: power_add [symmetric] mult.assoc)
  then show "L * (1 - 1 / 2 ^ 53) ^ 5 \<le> s * s" by (simp add: lo_def)
  have "s * s \<le> (sqrt q * hi) * (sqrt q * hi)"
    using S(2,3) r hi by (intro mult_mono) simp_all
  then have "s * s \<le> q * hi ^ 2" using rr by (simp add: power2_eq_square algebra_simps)
  moreover have "q * hi ^ 2 \<le> L * hi ^ 3 * hi ^ 2" using q(2) by (intro mult_right_mono) simp_all
  ultimately have "s * s \<le> L * hi ^ 5" by (simp add: power_add [symmetric] mult.assoc)
  then show "s * s \<le> L * (1 + 1 / 2 ^ 53) ^ 5" by (simp add: hi_def)
  show "0 \<le> s" by (rule S(3))
qed

lemma scaled_squares_upper:
  fixes a b c x y z k :: real
  assumes "\<bar>x\<bar> \<le> \<bar>a\<bar> * k" "\<bar>y\<bar> \<le> \<bar>b\<bar> * k" "\<bar>z\<bar> \<le> \<bar>c\<bar> * k"
  shows "x * x + y * y + z * z \<le> (a * a + b * b + c * c) * (k * k)"
proof -
  have sq: "u * u \<le> (d * d) * (k * k)" if "\<bar>u\<bar> \<le> \<bar>d\<bar> * k" for u d :: real
  proof -
    have "\<bar>u\<bar> * \<bar>u\<bar> \<le> (\<bar>d\<bar> * k) * (\<bar>d\<bar> * k)" using that by (intro mult_mono) simp_all
    then show ?thesis by (simp add: algebra_simps)
  qed
  show ?thesis using sq [OF assms(1)] sq [OF assms(2)] sq [OF assms(3)] by (simp add: algebra_simps)
qed

lemma scaled_squares_lower:
  fixes a b c x y z k :: real
  assumes "\<bar>a\<bar> * k \<le> \<bar>x\<bar>" "\<bar>b\<bar> * k \<le> \<bar>y\<bar>" "\<bar>c\<bar> * k \<le> \<bar>z\<bar>" "0 \<le> k"
  shows "(a * a + b * b + c * c) * (k * k) \<le> x * x + y * y + z * z"
proof -
  have sq: "(d * d) * (k * k) \<le> u * u" if "\<bar>d\<bar> * k \<le> \<bar>u\<bar>" for u d :: real
  proof -
    have "(\<bar>d\<bar> * k) * (\<bar>d\<bar> * k) \<le> \<bar>u\<bar> * \<bar>u\<bar>" using that assms(4) by (intro mult_mono) simp_all
    then show ?thesis by (simp add: algebra_simps)
  qed
  show ?thesis using sq [OF assms(1)] sq [OF assms(2)] sq [OF assms(3)] by (simp add: algebra_simps)
qed

lemma clamp_component_upper:
  assumes "0 < s" "0 \<le> M"
  shows "\<bar>f32 (f64 (f64 (a / s) * M))\<bar> \<le> \<bar>a\<bar> * (M / s * (1 + 1 / 2 ^ 53) ^ 2 * (1 + 1 / 2 ^ 24))"
proof -
  define hi :: real where "hi = 1 + 1 / 2 ^ 53"
  define h32 :: real where "h32 = 1 + 1 / 2 ^ 24"
  have hi: "0 \<le> hi" and h32: "0 \<le> h32" by (simp_all add: hi_def h32_def)
  have 1: "\<bar>f64 (a / s)\<bar> \<le> \<bar>a\<bar> / s * hi" using f64_upper [of "a / s"] assms(1) by (simp add: hi_def)
  have "\<bar>f64 (a / s) * M\<bar> = \<bar>f64 (a / s)\<bar> * M" using assms(2) by (simp add: abs_mult)
  also have "\<dots> \<le> \<bar>a\<bar> / s * hi * M" using 1 assms(2) by (rule mult_right_mono)
  finally have 2: "\<bar>f64 (a / s) * M\<bar> \<le> \<bar>a\<bar> / s * hi * M" .
  have "\<bar>f64 (f64 (a / s) * M)\<bar> \<le> \<bar>f64 (a / s) * M\<bar> * hi" using f64_upper by (simp add: hi_def)
  also have "\<dots> \<le> \<bar>a\<bar> / s * hi * M * hi" using 2 hi by (rule mult_right_mono)
  finally have 3: "\<bar>f64 (f64 (a / s) * M)\<bar> \<le> \<bar>a\<bar> / s * hi * M * hi" .
  have "\<bar>f32 (f64 (f64 (a / s) * M))\<bar> \<le> \<bar>f64 (f64 (a / s) * M)\<bar> * h32"
    using f32_upper by (simp add: h32_def)
  also have "\<dots> \<le> \<bar>a\<bar> / s * hi * M * hi * h32" using 3 h32 by (rule mult_right_mono)
  finally show ?thesis by (simp add: hi_def h32_def power2_eq_square algebra_simps)
qed

lemma clamp_component_lower:
  assumes "0 < s" "0 \<le> M"
  shows "\<bar>a\<bar> * (M / s * (1 - 1 / 2 ^ 53) ^ 2 * (1 - 1 / 2 ^ 24)) \<le> \<bar>f32 (f64 (f64 (a / s) * M))\<bar>"
proof -
  define lo :: real where "lo = 1 - 1 / 2 ^ 53"
  define l32 :: real where "l32 = 1 - 1 / 2 ^ 24"
  have lo: "0 \<le> lo" and l32: "0 \<le> l32" by (simp_all add: lo_def l32_def)
  have 1: "\<bar>a\<bar> / s * lo \<le> \<bar>f64 (a / s)\<bar>" using f64_lower [of "a / s"] assms(1) by (simp add: lo_def)
  have "\<bar>a\<bar> / s * lo * M \<le> \<bar>f64 (a / s)\<bar> * M" using 1 assms(2) by (rule mult_right_mono)
  also have "\<dots> = \<bar>f64 (a / s) * M\<bar>" using assms(2) by (simp add: abs_mult)
  finally have 2: "\<bar>a\<bar> / s * lo * M \<le> \<bar>f64 (a / s) * M\<bar>" .
  have "\<bar>a\<bar> / s * lo * M * lo \<le> \<bar>f64 (a / s) * M\<bar> * lo" using 2 lo by (rule mult_right_mono)
  also have "\<dots> \<le> \<bar>f64 (f64 (a / s) * M)\<bar>" using f64_lower by (simp add: lo_def)
  finally have 3: "\<bar>a\<bar> / s * lo * M * lo \<le> \<bar>f64 (f64 (a / s) * M)\<bar>" .
  have "\<bar>a\<bar> / s * lo * M * lo * l32 \<le> \<bar>f64 (f64 (a / s) * M)\<bar> * l32"
    using 3 l32 by (rule mult_right_mono)
  also have "\<dots> \<le> \<bar>f32 (f64 (f64 (a / s) * M))\<bar>" using f32_lower by (simp add: l32_def)
  finally show ?thesis by (simp add: lo_def l32_def power2_eq_square algebra_simps)
qed

lemma f64_maxSpeed: "f64 maxSpeed = 8646911284551352 / 2 ^ 58"
  unfolding f64_def maxSpeed_def using round_to_eval [of "- 6" "0.03" 53 8646911284551352]
  by (simp add: power_int_minus)

lemma stored_squares_upper:
  fixes a b c :: real
  defines "w \<equiv> to_float32 (limit_speed (a, b, c))"
  shows "(vec_x w * vec_x w + vec_y w * vec_y w + vec_z w * vec_z w) * (1 - 1 / 2 ^ 53) ^ 5
           \<le> f64 maxSpeed * f64 maxSpeed * ((1 + 1 / 2 ^ 53) ^ 2 * (1 + 1 / 2 ^ 24)) ^ 2"
proof -
  define M where "M = f64 maxSpeed"
  define s where "s = computed_speed (a, b, c)"
  define L where "L = a * a + b * b + c * c"
  define lo :: real where "lo = 1 - 1 / 2 ^ 53"
  define hi :: real where "hi = 1 + 1 / 2 ^ 53"
  define h32 :: real where "h32 = 1 + 1 / 2 ^ 24"
  define W where "W = vec_x w * vec_x w + vec_y w * vec_y w + vec_z w * vec_z w"
  have M: "0 < M" by (simp add: M_def f64_maxSpeed)
  have lo: "0 \<le> lo" and hi: "1 \<le> hi" and h32: "1 \<le> h32" by (simp_all add: lo_def hi_def h32_def)
  have s: "L * lo ^ 5 \<le> s * s" "0 \<le> s"
    using computed_speed_bounds(1,3) [of a b c] by (simp_all add: s_def L_def lo_def)
  have L: "0 \<le> L" by (simp add: L_def)
  have goal: "W * lo ^ 5 \<le> M * M * (hi ^ 2 * h32) ^ 2"
  proof (cases "s > M")
    case True
    then have pos: "0 < s" using M by linarith
    define k where "k = M / s * hi ^ 2 * h32"
    have w: "w = (f32 (f64 (f64 (a / s) * M)), f32 (f64 (f64 (b / s) * M)), f32 (f64 (f64 (c / s) * M)))"
      using True by (simp add: w_def limit_speed_def to_float32_def s_def computed_speed_def M_def Let_def)
    have "W \<le> L * (k * k)"
      unfolding W_def L_def w fst_conv snd_conv
      by (intro scaled_squares_upper; unfold k_def hi_def h32_def;
          rule clamp_component_upper [OF pos less_imp_le [OF M]])
    then have "W * lo ^ 5 \<le> L * (k * k) * lo ^ 5" using lo by (intro mult_right_mono) simp_all
    also have "\<dots> = (L * lo ^ 5) * (k * k)" by simp
    also have "\<dots> \<le> (s * s) * (k * k)" using s(1) by (intro mult_right_mono) simp_all
    also have "\<dots> = M * M * (hi ^ 2 * h32) ^ 2"
      using pos by (simp add: k_def power2_eq_square)
    finally show ?thesis .
  next
    case False
    then have w: "w = (f32 a, f32 b, f32 c)"
      by (simp add: w_def limit_speed_def to_float32_def s_def computed_speed_def M_def Let_def)
    have "W \<le> L * (h32 * h32)"
      unfolding W_def L_def w fst_conv snd_conv
      by (intro scaled_squares_upper; unfold h32_def; rule f32_upper)
    then have "W * lo ^ 5 \<le> L * (h32 * h32) * lo ^ 5" using lo by (intro mult_right_mono) simp_all
    also have "\<dots> = (L * lo ^ 5) * (h32 * h32)" by simp
    also have "\<dots> \<le> (s * s) * (h32 * h32)" using s(1) by (intro mult_right_mono) simp_all
    also have "\<dots> \<le> (M * M) * (h32 * h32)"
      using False s(2) M by (intro mult_right_mono mult_mono) simp_all
    also have "\<dots> \<le> (M * M) * ((hi ^ 2 * h32) * (hi ^ 2 * h32))"
    proof -
      have "1 \<le> hi ^ 2" using hi by simp
      then have "1 * h32 \<le> hi ^ 2 * h32" using h32 by (intro mult_right_mono) simp_all
      then have "h32 \<le> hi ^ 2 * h32" by simp
      then have "h32 * h32 \<le> (hi ^ 2 * h32) * (hi ^ 2 * h32)" using h32 by (intro mult_mono) simp_all
      then show ?thesis using M by (intro mult_left_mono) simp_all
    qed
    finally show ?thesis by (simp add: power2_eq_square)
  qed
  then show ?thesis by (simp add: W_def M_def lo_def hi_def h32_def)
qed

lemma stored_speed_upper:
  "vec_length (to_float32 (limit_speed v)) \<le> 0.03 * (1 + 1 / 2 ^ 23)"
proof -
  obtain a b c where v: "v = (a, b, c)" by (cases v)
  define w where "w = to_float32 (limit_speed (a, b, c))"
  define W where "W = vec_x w * vec_x w + vec_y w * vec_y w + vec_z w * vec_z w"
  have 1: "W * (1 - 1 / 2 ^ 53) ^ 5
           \<le> f64 maxSpeed * f64 maxSpeed * ((1 + 1 / 2 ^ 53) ^ 2 * (1 + 1 / 2 ^ 24)) ^ 2"
    unfolding W_def w_def by (rule stored_squares_upper)
  have 2: "f64 maxSpeed * f64 maxSpeed * ((1 + 1 / 2 ^ 53) ^ 2 * (1 + 1 / 2 ^ 24)) ^ 2
           \<le> (0.03 * (1 + 1 / 2 ^ 23)) ^ 2 * (1 - 1 / 2 ^ 53) ^ 5"
    unfolding f64_maxSpeed by (simp add: power_divide power_mult_distrib)
  have pos: "(0::real) < (1 - 1 / 2 ^ 53) ^ 5" by simp
  from 1 2 have "W * (1 - 1 / 2 ^ 53) ^ 5 \<le> (0.03 * (1 + 1 / 2 ^ 23)) ^ 2 * (1 - 1 / 2 ^ 53) ^ 5"
    by (rule order_trans)
  then have "W \<le> (0.03 * (1 + 1 / 2 ^ 23)) ^ 2" using pos by (simp only: mult_le_cancel_right_pos)
  then have "sqrt W \<le> 0.03 * (1 + 1 / 2 ^ 23)" by (intro real_le_lsqrt) simp_all
  then show ?thesis by (simp add: vec_length_def v W_def w_def)
qed


lemma stored_squares_lower:
  fixes a b c :: real
  defines "w \<equiv> to_float32 (limit_speed (a, b, c))"
  assumes big: "computed_speed (a, b, c) > f64 maxSpeed"
  shows "f64 maxSpeed * f64 maxSpeed * ((1 - 1 / 2 ^ 53) ^ 2 * (1 - 1 / 2 ^ 24)) ^ 2
           \<le> (vec_x w * vec_x w + vec_y w * vec_y w + vec_z w * vec_z w) * (1 + 1 / 2 ^ 53) ^ 5"
proof -
  define M where "M = f64 maxSpeed"
  define s where "s = computed_speed (a, b, c)"
  define L where "L = a * a + b * b + c * c"
  define lo :: real where "lo = 1 - 1 / 2 ^ 53"
  define hi :: real where "hi = 1 + 1 / 2 ^ 53"
  define l32 :: real where "l32 = 1 - 1 / 2 ^ 24"
  define W where "W = vec_x w * vec_x w + vec_y w * vec_y w + vec_z w * vec_z w"
  define k where "k = M / s * lo ^ 2 * l32"
  have M: "0 < M" by (simp add: M_def f64_maxSpeed)
  have lo: "0 \<le> lo" and hi: "0 \<le> hi" and l32: "0 \<le> l32" by (simp_all add: lo_def hi_def l32_def)
  have s: "s * s \<le> L * hi ^ 5"
    using computed_speed_bounds(2) [of a b c] by (simp_all add: s_def L_def hi_def)
  have True: "s > M" using big by (simp add: s_def M_def)
  then have pos: "0 < s" using M by linarith
  have k: "0 \<le> k" using pos M lo l32 by (simp add: k_def)
  have w: "w = (f32 (f64 (f64 (a / s) * M)), f32 (f64 (f64 (b / s) * M)), f32 (f64 (f64 (c / s) * M)))"
    using True by (simp add: w_def limit_speed_def to_float32_def s_def computed_speed_def M_def Let_def)
  have "L * (k * k) \<le> W"
    unfolding W_def L_def w fst_conv snd_conv
    by (intro scaled_squares_lower k; unfold k_def lo_def l32_def;
        rule clamp_component_lower [OF pos less_imp_le [OF M]])
  then have "L * (k * k) * hi ^ 5 \<le> W * hi ^ 5" using hi by (intro mult_right_mono) simp_all
  moreover have "(s * s) * (k * k) \<le> (L * hi ^ 5) * (k * k)" using s by (intro mult_right_mono) simp_all
  moreover have "(s * s) * (k * k) = M * M * (lo ^ 2 * l32) ^ 2"
    using pos by (simp add: k_def power2_eq_square)
  ultimately have "M * M * (lo ^ 2 * l32) ^ 2 \<le> W * hi ^ 5" by (simp add: algebra_simps)
  then show ?thesis by (simp add: W_def M_def lo_def hi_def l32_def)
qed

lemma stored_speed_lower:
  assumes "computed_speed v > f64 maxSpeed"
  shows "0.03 * (1 - 1 / 2 ^ 23) \<le> vec_length (to_float32 (limit_speed v))"
proof -
  obtain a b c where v: "v = (a, b, c)" by (cases v)
  define w where "w = to_float32 (limit_speed (a, b, c))"
  define W where "W = vec_x w * vec_x w + vec_y w * vec_y w + vec_z w * vec_z w"
  have 1: "f64 maxSpeed * f64 maxSpeed * ((1 - 1 / 2 ^ 53) ^ 2 * (1 - 1 / 2 ^ 24)) ^ 2
             \<le> W * (1 + 1 / 2 ^ 53) ^ 5"
    unfolding W_def w_def using assms unfolding v by (rule stored_squares_lower)
  have 2: "(0.03 * (1 - 1 / 2 ^ 23)) ^ 2 * (1 + 1 / 2 ^ 53) ^ 5
             \<le> f64 maxSpeed * f64 maxSpeed * ((1 - 1 / 2 ^ 53) ^ 2 * (1 - 1 / 2 ^ 24)) ^ 2"
    unfolding f64_maxSpeed by (simp add: power_divide power_mult_distrib)
  have pos: "(0::real) < (1 + 1 / 2 ^ 53) ^ 5" by simp
  from 2 1 have "(0.03 * (1 - 1 / 2 ^ 23)) ^ 2 * (1 + 1 / 2 ^ 53) ^ 5 \<le> W * (1 + 1 / 2 ^ 53) ^ 5"
    by (rule order_trans)
  then have "(0.03 * (1 - 1 / 2 ^ 23)) ^ 2 \<le> W" using pos by (simp only: mult_le_cancel_right_pos)
  then have "0.03 * (1 - 1 / 2 ^ 23) \<le> sqrt W" by (intro real_le_rsqrt) simp_all
  then show ?thesis by (simp add: vec_length_def v W_def w_def)
qed

lemma limit_speed_clamp: "limit_speed v = clamp_speed v"
  by (simp add: limit_speed_def clamp_speed_def computed_speed_def maxSpeed_def Let_def)

text \<open>
  The neighbour loop of the source computes the sums and counts of \<open>flock_of\<close>, and the forces
  of the source add up to \<open>flock_velocity\<close>.
\<close>

lemma neighbor_body_step:
  "neighbor_body (3 * p) (xs ! (3 * p)) (xs ! (3 * p + 1)) (xs ! (3 * p + 2)) xs vs (3 * q) acc =
     (if is_near perceptionRadius xs p q then
        (let acc = (if is_near separationDist xs p q then
                      acc\<lparr> sepX := sepX acc + vec_x (push_away xs p q),
                           sepY := sepY acc + vec_y (push_away xs p q),
                           sepZ := sepZ acc + vec_z (push_away xs p q),
                           sepCount := sepCount acc + 1 \<rparr>
                    else acc)
         in acc\<lparr> alignX := alignX acc + vec_x (particle vs q),
                 alignY := alignY acc + vec_y (particle vs q),
                 alignZ := alignZ acc + vec_z (particle vs q),
                 alignCount := alignCount acc + 1,
                 cohX := cohX acc + vec_x (particle xs q),
                 cohY := cohY acc + vec_y (particle xs q),
                 cohZ := cohZ acc + vec_z (particle xs q),
                 cohCount := cohCount acc + 1 \<rparr>)
      else acc)"
  by (simp add: neighbor_body_def is_near_def push_away_def particle_def distanceTo_def Let_def)

lemma neighbors_fold:
  defines "B \<equiv> \<lambda>p xs vs. neighbor_body (3 * p) (xs ! (3 * p)) (xs ! (3 * p + 1)) (xs ! (3 * p + 2)) xs vs"
  shows "fold (B p xs vs) (map (\<lambda>q. 3 * q) qs) acc =
     (let S = filter (is_near separationDist xs p) (filter (is_near perceptionRadius xs p) qs);
          N = filter (is_near perceptionRadius xs p) qs
      in \<lparr> sepX = sepX acc + vec_x (vec_sum (map (push_away xs p) S)),
           sepY = sepY acc + vec_y (vec_sum (map (push_away xs p) S)),
           sepZ = sepZ acc + vec_z (vec_sum (map (push_away xs p) S)),
           sepCount = sepCount acc + length S,
           alignX = alignX acc + vec_x (vec_sum (map (particle vs) N)),
           alignY = alignY acc + vec_y (vec_sum (map (particle vs) N)),
           alignZ = alignZ acc + vec_z (vec_sum (map (particle vs) N)),
           alignCount = alignCount acc + length N,
           cohX = cohX acc + vec_x (vec_sum (map (particle xs) N)),
           cohY = cohY acc + vec_y (vec_sum (map (particle xs) N)),
           cohZ = cohZ acc + vec_z (vec_sum (map (particle xs) N)),
           cohCount = cohCount acc + length N \<rparr>)"
proof (induction qs arbitrary: acc)
  case Nil
  show ?case by (simp add: vec_sum_def)
next
  case (Cons q qs)
  have step: "B p xs vs (3 * q) a = (if is_near perceptionRadius xs p q then
        (let a = (if is_near separationDist xs p q then
                      a\<lparr> sepX := sepX a + vec_x (push_away xs p q),
                           sepY := sepY a + vec_y (push_away xs p q),
                           sepZ := sepZ a + vec_z (push_away xs p q),
                           sepCount := sepCount a + 1 \<rparr>
                    else a)
         in a\<lparr> alignX := alignX a + vec_x (particle vs q),
                 alignY := alignY a + vec_y (particle vs q),
                 alignZ := alignZ a + vec_z (particle vs q),
                 alignCount := alignCount a + 1,
                 cohX := cohX a + vec_x (particle xs q),
                 cohY := cohY a + vec_y (particle xs q),
                 cohZ := cohZ a + vec_z (particle xs q),
                 cohCount := cohCount a + 1 \<rparr>)
      else a)" for a
    unfolding B_def by (rule neighbor_body_step)
  show ?case
    by (simp add: Cons.IH step vec_sum_def Let_def)
qed

lemma near_filter:
  "filter (is_near separationDist xs p) (filter (is_near perceptionRadius xs p) qs) =
   filter (is_near separationDist xs p) qs"
  by (induction qs) (auto simp add: is_near_def separationDist_def perceptionRadius_def)

lemma others_within_filter: "others_within r xs n p = filter (is_near r xs p) [0..<n]"
  by (simp add: others_within_def)

lemma neighbors_flock_of:
  assumes "length xs = 3 * n"
  shows "neighbors (3 * p) xs vs = flock_of xs vs n p"
proof -
  have "neighbors (3 * p) xs vs =
        fold (neighbor_body (3 * p) (xs ! (3 * p)) (xs ! (3 * p + 1)) (xs ! (3 * p + 2)) xs vs)
          (map (\<lambda>q. 3 * q) [0..<n]) flock0"
    by (simp add: neighbors_def assms for3_after after_particles_def)
  also have "\<dots> = flock_of xs vs n p"
    by (simp only: neighbors_fold near_filter)
       (simp add: flock_of_def flock0_def others_within_filter Let_def)
  finally show ?thesis .
qed

lemma vec_mean_components:
  "vec_x (vec_mean vs) = vec_x (vec_sum vs) / real (length vs)"
  "vec_y (vec_mean vs) = vec_y (vec_sum vs) / real (length vs)"
  "vec_z (vec_mean vs) = vec_z (vec_sum vs) / real (length vs)"
  by (simp_all add: vec_mean_def vec_scale_def)

lemma apply_forces_flock:
  "apply_forces (flock_of xs vs n p) (particle xs p) (particle vs p) = flock_velocity xs vs n p"
proof -
  define S where "S = others_within separationDist xs n p"
  define N where "N = others_within perceptionRadius xs n p"
  have c: "0 < length S \<longleftrightarrow> S \<noteq> []" "0 < length N \<longleftrightarrow> N \<noteq> []" by simp_all
  show ?thesis
    unfolding apply_forces_def flock_velocity_def flock_of_def S_def [symmetric] N_def [symmetric]
      Let_def flock.simps prod.case fst_conv snd_conv c
    by (simp add: vec_add_def vec_sub_def vec_scale_def vec_mean_components vec_length_def
        case_prod_beta algebra_simps)
qed

lemma swarm_body_spec:
  assumes "length xs = 3 * n"
  shows "swarm_body (3 * p) (xs, vs) = swarm_particle n p (xs, vs)"
proof -
  have v: "limit_speed (apply_forces (neighbors (3 * p) xs vs)
             (xs ! (3 * p), xs ! (3 * p + 1), xs ! (3 * p + 2))
             (vs ! (3 * p), vs ! (3 * p + 1), vs ! (3 * p + 2))) =
           clamp_speed (flock_velocity xs vs n p)"
    using apply_forces_flock [of xs vs n p]
    by (simp add: neighbors_flock_of [OF assms] limit_speed_clamp particle_def)
  show ?thesis
    unfolding swarm_body_def swarm_particle_def prod.case Let_def v
    by (simp add: set_particle_def particle_def to_float32_def split: prod.splits)
qed

lemma swarm_particle_length:
  "length (fst (swarm_particle n p \<sigma>)) = length (fst \<sigma>)"
  "length (snd (swarm_particle n p \<sigma>)) = length (snd \<sigma>)"
  by (cases \<sigma>; simp add: swarm_particle_def set_particle_def Let_def)+

lemma swarm_after:
  assumes "length xs = 3 * n"
  shows "after_particles swarm_body q (xs, vs) = fold (swarm_particle n) [0..<q] (xs, vs) \<and>
         length (fst (after_particles swarm_body q (xs, vs))) = 3 * n \<and>
         length (snd (after_particles swarm_body q (xs, vs))) = length vs"
proof (induction q)
  case 0
  show ?case by (simp add: after_0 assms)
next
  case (Suc q)
  obtain ys ws where S: "after_particles swarm_body q (xs, vs) = (ys, ws)"
    by (cases "after_particles swarm_body q (xs, vs)")
  with Suc have IH: "fold (swarm_particle n) [0..<q] (xs, vs) = (ys, ws)"
    "length ys = 3 * n" "length ws = length vs" by simp_all
  have "after_particles swarm_body (Suc q) (xs, vs) = swarm_particle n q (ys, ws)"
    by (simp add: after_Suc S swarm_body_spec [OF IH(2)])
  then show ?case
    using IH swarm_particle_length [of n q "(ys, ws)"] by simp
qed

lemma swarm_loop_spec:
  assumes "length xs = 3 * n"
  shows "swarm_loop (xs, vs) = fold (swarm_particle n) [0..<n] (xs, vs)"
  using swarm_after [OF assms, of n vs] by (simp add: swarm_loop_def assms for3_after)

lemma set_particle_same:
  "3 * p + 2 < length buf \<Longrightarrow> particle (set_particle buf p v) p = v"
  by (simp add: set_particle_def particle_def)

lemma set_particle_other:
  "q \<noteq> p \<Longrightarrow> particle (set_particle buf p v) q = particle buf q"
  by (simp add: set_particle_def particle_def)

text \<open>
  The velocity cells of particle \<open>p\<close> after the frame are those stored when the loop visited
  \<open>p\<close>: the float cells of the limited velocity, computed from the buffers that the particles
  before \<open>p\<close> left.
\<close>

lemma swarm_fold_velocity:
  assumes "length xs = 3 * n" "length vs = 3 * n"
  shows "q \<le> n \<Longrightarrow>
     length (fst (fold (swarm_particle n) [0..<q] (xs, vs))) = 3 * n \<and>
     length (snd (fold (swarm_particle n) [0..<q] (xs, vs))) = 3 * n \<and>
     (\<forall>p < q. particle (snd (fold (swarm_particle n) [0..<q] (xs, vs))) p =
        to_float32 (clamp_speed (flock_velocity
          (fst (fold (swarm_particle n) [0..<p] (xs, vs)))
          (snd (fold (swarm_particle n) [0..<p] (xs, vs))) n p)))"
proof (induction q)
  case 0
  show ?case by (simp add: assms)
next
  case (Suc q)
  obtain ys ws where S: "fold (swarm_particle n) [0..<q] (xs, vs) = (ys, ws)"
    by (cases "fold (swarm_particle n) [0..<q] (xs, vs)")
  with Suc have IH: "length ys = 3 * n" "length ws = 3 * n"
    "\<forall>p < q. particle ws p =
        to_float32 (clamp_speed (flock_velocity
          (fst (fold (swarm_particle n) [0..<p] (xs, vs)))
          (snd (fold (swarm_particle n) [0..<p] (xs, vs))) n p))" and q: "q < n" by auto
  have step: "fold (swarm_particle n) [0..<Suc q] (xs, vs) = swarm_particle n q (ys, ws)"
    by (simp add: S)
  have len: "length (fst (swarm_particle n q (ys, ws))) = 3 * n"
    "length (snd (swarm_particle n q (ys, ws))) = 3 * n"
    by (simp_all add: swarm_particle_length IH)
  have vel: "particle (snd (swarm_particle n q (ys, ws))) p =
        to_float32 (clamp_speed (flock_velocity
          (fst (fold (swarm_particle n) [0..<p] (xs, vs)))
          (snd (fold (swarm_particle n) [0..<p] (xs, vs))) n p))"
    if "p < Suc q" for p
  proof (cases "p = q")
    case True
    have "3 * q + 2 < length ws" using q IH(2) by simp
    then show ?thesis
      by (simp add: True S swarm_particle_def Let_def set_particle_same)
  next
    case False
    with that have "p < q" by simp
    then show ?thesis
      using IH(3) False by (simp add: swarm_particle_def Let_def set_particle_other)
  qed
  show ?case unfolding step using len vel by blast
qed

text \<open>
  Claim C3, corrected. In the swarm visualization a frame updates every particle in turn
  (\<open>swarm_particle\<close> for \<open>p = 0, \<dots>, n - 1\<close>, each on the buffers left by the particles before
  it). The update of particle \<open>p\<close> checks the distance to every other particle. Its separation
  force is twice \<open>maxForce\<close> times the mean of the unit vectors pointing away from exactly
  the other particles at a distance less than 1 and greater than 0; its alignment and
  cohesion forces are computed from the mean velocity and the mean position of exactly the
  other particles at a distance less than the perception radius 3 and greater than 0
  (\<open>flock_velocity\<close>). The velocity is then limited and stored, and the position moves by it.
  On any buffers of \<open>n\<close> particles, the sums and counts that the neighbour loop of the source
  leaves for particle \<open>p\<close> are those taken over exactly these two sets of particles
  (\<open>flock_of\<close>).

  The distance has to be greater than 0 for separation as well: the test \<^verbatim>\<open>dist > 0\<close> of the
  source encloses the separation test, so a particle at the very place of \<open>p\<close> is not counted.
\<close>

theorem swarm_flocking:
  assumes "currentViz s = ''swarm''" and "particleSystem s = Some ps"
    and "velocities ps = Some vs" and "length (positions ps) = 3 * n"
  shows "animateParticles s =
           (let F = fold (swarm_particle n) [0..<n] (positions ps, vs)
            in (Normal, s\<lparr> particleSystem :=
                            Some (ps\<lparr> positions := fst F, velocities := Some (snd F) \<rparr>) \<rparr>)) \<and>
         (\<forall>p ys ws. length ys = 3 * n \<longrightarrow> neighbors (3 * p) ys ws = flock_of ys ws n p)"
  using assms swarm_loop_spec [OF assms(4), of vs] neighbors_flock_of
  by (simp add: animateParticles_def Let_def split: prod.splits)

theorem swarm_flocking_witness:
  "animateParticles swarm_example =
     (let xs = [0, 0, 0, 1 / 2, 0, 0, 2, 0, 0, 0, 0, 0];
          vs = [1, 0, 0, 0, 0, 0, 0, 0, 0, 0, 0, 0];
          F = fold (swarm_particle 4) [0..<4] (xs, vs)
      in (Normal, swarm_example\<lparr> particleSystem :=
            Some ((small_system ''swarm'' xs (Some vs))\<lparr> positions := fst F,
                     velocities := Some (snd F) \<rparr>) \<rparr>)) \<and>
   others_within separationDist [0, 0, 0, 1 / 2, 0, 0, 2, 0, 0, 0, 0, 0] 4 0 = [1] \<and>
   others_within perceptionRadius [0, 0, 0, 1 / 2, 0, 0, 2, 0, 0, 0, 0, 0] 4 0 = [1, 2] \<and>
   flock_velocity [0, 0, 0, 1 / 2, 0, 0, 2, 0, 0, 0, 0, 0] [1, 0, 0, 0, 0, 0, 0, 0, 0, 0, 0, 0] 4 0 =
     (997627 / 1000000, 0, 0) \<and>
   alignCount (neighbors 0 [0, 0, 0, 1 / 2, 0, 0, 2, 0, 0, 0, 0, 0]
                 [1, 0, 0, 0, 0, 0, 0, 0, 0, 0, 0, 0]) = 2 \<and>
   cohX (neighbors 0 [0, 0, 0, 1 / 2, 0, 0, 2, 0, 0, 0, 0, 0]
           [1, 0, 0, 0, 0, 0, 0, 0, 0, 0, 0, 0]) = 5 / 2"
proof -
  let ?xs = "[0, 0, 0, 1 / 2, 0, 0, 2, 0, 0, 0, 0, 0] :: real list"
  let ?vs = "[1, 0, 0, 0, 0, 0, 0, 0, 0, 0, 0, 0] :: real list"
  let ?ps = "small_system ''swarm'' ?xs (Some ?vs)"
  have h: "currentViz swarm_example = ''swarm''" "particleSystem swarm_example = Some ?ps"
    "velocities ?ps = Some ?vs" "length (positions ?ps) = 3 * 4"
    by (simp_all add: swarm_example_def small_system_def)
  have p: "positions ?ps = ?xs" by (simp add: small_system_def)
  have up: "[0..<4] = [0, 1, 2, 3]" by (simp add: upt_rec)
  have d: "distanceTo (particle ?xs 0) (particle ?xs 0) = 0"
    "distanceTo (particle ?xs (Suc 0)) (particle ?xs 0) = 1 / 2"
    "distanceTo (particle ?xs 2) (particle ?xs 0) = 2"
    "distanceTo (particle ?xs 3) (particle ?xs 0) = 0"
    by (simp_all add: distanceTo_def particle_def real_sqrt_divide)
  have near: "others_within separationDist ?xs 4 0 = [1]"
    "others_within perceptionRadius ?xs 4 0 = [1, 2]"
    by (simp_all add: others_within_def is_near_def up d separationDist_def perceptionRadius_def)
  have push: "push_away ?xs 0 (Suc 0) = (- 1, 0, 0)"
    by (simp add: push_away_def d)
  have v: "flock_velocity ?xs ?vs 4 0 = (997627 / 1000000, 0, 0)"
    unfolding flock_velocity_def near Let_def
    by (simp add: push vec_mean_def vec_sum_def vec_scale_def vec_add_def vec_sub_def
        vec_length_def particle_def maxForce_def)
  note t = swarm_flocking [OF h]
  have run: "animateParticles swarm_example =
     (let F = fold (swarm_particle 4) [0..<4] (?xs, ?vs)
      in (Normal, swarm_example\<lparr> particleSystem :=
            Some (?ps\<lparr> positions := fst F, velocities := Some (snd F) \<rparr>) \<rparr>))"
    using t [THEN conjunct1] unfolding p .
  have len: "length ?xs = 3 * 4" by simp
  have "neighbors (3 * 0) ?xs ?vs = flock_of ?xs ?vs 4 0"
    using t [THEN conjunct2, rule_format, OF len] .
  then have n: "alignCount (neighbors 0 ?xs ?vs) = 2" "cohX (neighbors 0 ?xs ?vs) = 5 / 2"
    unfolding flock_of_def near Let_def by (simp_all add: vec_sum_def particle_def)
  show ?thesis
    using run near v n by (simp add: Let_def)
qed

text \<open>
  Two other particles are at a distance less than 1 from the first particle of
  \<open>swarm_example\<close>, the second and the fourth; the fourth is at distance 0, and the separation
  count of the source is 1.
\<close>

theorem swarm_separation_skips_coincident:
  "others_closer_than separationDist [0, 0, 0, 1 / 2, 0, 0, 2, 0, 0, 0, 0, 0] 4 0 = [1, 3] \<and>
   sepCount (neighbors 0 [0, 0, 0, 1 / 2, 0, 0, 2, 0, 0, 0, 0, 0]
               [1, 0, 0, 0, 0, 0, 0, 0, 0, 0, 0, 0]) = 1"
proof -
  let ?xs = "[0, 0, 0, 1 / 2, 0, 0, 2, 0, 0, 0, 0, 0] :: real list"
  let ?vs = "[1, 0, 0, 0, 0, 0, 0, 0, 0, 0, 0, 0] :: real list"
  have up: "[0..<4] = [0, 1, 2, 3]" by (simp add: upt_rec)
  have d: "distanceTo (particle ?xs 0) (particle ?xs 0) = 0"
    "distanceTo (particle ?xs (Suc 0)) (particle ?xs 0) = 1 / 2"
    "distanceTo (particle ?xs 2) (particle ?xs 0) = 2"
    "distanceTo (particle ?xs 3) (particle ?xs 0) = 0"
    by (simp_all add: distanceTo_def particle_def real_sqrt_divide)
  have a: "others_closer_than separationDist ?xs 4 0 = [1, 3]"
    by (simp add: others_closer_than_def closer_than_def up d separationDist_def)
  have "others_within separationDist ?xs 4 0 = [1]"
    by (simp add: others_within_def is_near_def up d separationDist_def)
  moreover have "neighbors (3 * 0) ?xs ?vs = flock_of ?xs ?vs 4 0"
    by (rule neighbors_flock_of) simp
  ultimately have "sepCount (neighbors 0 ?xs ?vs) = 1"
    by (simp add: flock_of_def Let_def)
  with a show ?thesis by simp
qed

text \<open>
  Claim C4, corrected. In the swarm visualization, after the particle update of a frame (the
  state that \<^verbatim>\<open>animateParticles\<close> returns, before \<^verbatim>\<open>applyMouseGravity\<close> runs) the velocity cells
  of every particle \<open>p\<close> hold the floats nearest to the limited velocity: with \<open>u\<close> the velocity
  after the flocking forces, computed on the buffers that the particles before \<open>p\<close> left, and
  \<open>speed\<close> its length as computed in double arithmetic, the limited velocity is \<open>u\<close> itself
  when \<open>speed\<close> is at most the double 0.03, and otherwise \<open>u\<close> divided by \<open>speed\<close> and multiplied
  by the double 0.03, each operation rounded to a double. The stored velocity has Euclidean
  length at most \<open>0.03 * (1 + 1 / 2 ^ 23)\<close>, and when the limit rescales, at least
  \<open>0.03 * (1 - 1 / 2 ^ 23)\<close>.

  The length is 0.03 only up to this rounding: a stored velocity can be longer than 0.03.
\<close>

theorem swarm_speed_limit:
  assumes "currentViz s = ''swarm''" and "particleSystem s = Some ps"
    and "velocities ps = Some vs" and "length (positions ps) = 3 * n" and "length vs = 3 * n"
  shows "\<exists>s' ps' vs'. animateParticles s = (Normal, s') \<and> particleSystem s' = Some ps' \<and>
           velocities ps' = Some vs' \<and> length vs' = 3 * n \<and>
           (\<forall>p < n.
              let (xs, ws) = fold (swarm_particle n) [0..<p] (positions ps, vs);
                  u = flock_velocity xs ws n p;
                  speed = computed_speed u
              in particle vs' p =
                   (if speed > f64 0.03 then
                      (f32 (f64 (f64 (vec_x u / speed) * f64 0.03)),
                       f32 (f64 (f64 (vec_y u / speed) * f64 0.03)),
                       f32 (f64 (f64 (vec_z u / speed) * f64 0.03)))
                    else (f32 (vec_x u), f32 (vec_y u), f32 (vec_z u))) \<and>
                 vec_length (particle vs' p) \<le> 0.03 * (1 + 1 / 2 ^ 23) \<and>
                 (speed > f64 0.03 \<longrightarrow> 0.03 * (1 - 1 / 2 ^ 23) \<le> vec_length (particle vs' p)))"
proof -
  let ?F = "\<lambda>q. fold (swarm_particle n) [0..<q] (positions ps, vs)"
  let ?ps' = "ps\<lparr> positions := fst (?F n), velocities := Some (snd (?F n)) \<rparr>"
  have run: "animateParticles s = (Normal, s\<lparr> particleSystem := Some ?ps' \<rparr>)"
    using assms(1,2,3) swarm_loop_spec [OF assms(4), of vs]
    by (simp add: animateParticles_def Let_def split: prod.splits)
  have b: "length (snd (?F n)) = 3 * n"
    "\<forall>p < n. particle (snd (?F n)) p =
        to_float32 (clamp_speed (flock_velocity (fst (?F p)) (snd (?F p)) n p))"
    using swarm_fold_velocity [OF assms(4,5), of n] by simp_all
  have m: "f64 maxSpeed = f64 0.03" by (simp add: maxSpeed_def)
  have c: "let (xs, ws) = ?F p;
               u = flock_velocity xs ws n p;
               speed = computed_speed u
           in particle (snd (?F n)) p =
                (if speed > f64 0.03 then
                   (f32 (f64 (f64 (vec_x u / speed) * f64 0.03)),
                    f32 (f64 (f64 (vec_y u / speed) * f64 0.03)),
                    f32 (f64 (f64 (vec_z u / speed) * f64 0.03)))
                 else (f32 (vec_x u), f32 (vec_y u), f32 (vec_z u))) \<and>
              vec_length (particle (snd (?F n)) p) \<le> 0.03 * (1 + 1 / 2 ^ 23) \<and>
              (speed > f64 0.03 \<longrightarrow> 0.03 * (1 - 1 / 2 ^ 23) \<le> vec_length (particle (snd (?F n)) p))"
    if p: "p < n" for p
  proof -
    obtain ys ws where F: "?F p = (ys, ws)" by (cases "?F p")
    define u where "u = flock_velocity ys ws n p"
    have stored: "particle (snd (?F n)) p = to_float32 (clamp_speed u)"
      using b(2) p by (simp add: F u_def)
    have 1: "to_float32 (clamp_speed u) =
               (if computed_speed u > f64 0.03 then
                  (f32 (f64 (f64 (vec_x u / computed_speed u) * f64 0.03)),
                   f32 (f64 (f64 (vec_y u / computed_speed u) * f64 0.03)),
                   f32 (f64 (f64 (vec_z u / computed_speed u) * f64 0.03)))
                else (f32 (vec_x u), f32 (vec_y u), f32 (vec_z u)))"
      by (simp add: clamp_speed_def to_float32_def)
    have 2: "vec_length (to_float32 (clamp_speed u)) \<le> 0.03 * (1 + 1 / 2 ^ 23)"
      using stored_speed_upper [of u] by (simp only: limit_speed_clamp)
    have 3: "0.03 * (1 - 1 / 2 ^ 23) \<le> vec_length (to_float32 (clamp_speed u))"
      if "computed_speed u > f64 0.03"
      using stored_speed_lower [of u] that by (simp only: limit_speed_clamp m)
    show ?thesis
      unfolding F prod.case Let_def u_def [symmetric] stored using 1 2 3 by simp
  qed
  show ?thesis
    using run b(1) c
    by (intro exI [of _ "s\<lparr> particleSystem := Some ?ps' \<rparr>"] exI [of _ ?ps'] exI [of _ "snd (?F n)"])
       simp
qed

theorem swarm_speed_limit_witness:
  "\<exists>s' ps' vs'. animateParticles two_boids = (Normal, s') \<and> particleSystem s' = Some ps' \<and>
      velocities ps' = Some vs' \<and> length vs' = 6 \<and>
      particle vs' 0 = (16106127 / 2 ^ 29, 0, 0) \<and>
      vec_length (particle vs' 0) \<le> 0.03 * (1 + 1 / 2 ^ 23) \<and>
      0.03 * (1 - 1 / 2 ^ 23) \<le> vec_length (particle vs' 0) \<and>
      vec_length (particle vs' 1) \<le> 0.03 * (1 + 1 / 2 ^ 23)"
proof -
  let ?xs = "[0, 0, 0, 5, 0, 0] :: real list"
  let ?vs = "[1, 0, 0, 0, 0, 0] :: real list"
  let ?ps = "small_system ''swarm'' ?xs (Some ?vs)"
  have h: "currentViz two_boids = ''swarm''" "particleSystem two_boids = Some ?ps"
    "velocities ?ps = Some ?vs" "length (positions ?ps) = 3 * 2" "length ?vs = 3 * 2"
    by (simp_all add: two_boids_def small_system_def)
  have p: "positions ?ps = ?xs" by (simp add: small_system_def)
  have d: "distanceTo (particle ?xs 0) (particle ?xs 0) = 0"
    "distanceTo (particle ?xs (Suc 0)) (particle ?xs 0) = 5"
    by (simp_all add: distanceTo_def particle_def)
  have up: "[0..<2] = [0, 1]" by (simp add: upt_rec)
  have near: "others_within separationDist ?xs 2 0 = []"
    "others_within perceptionRadius ?xs 2 0 = []"
    by (simp_all add: others_within_def is_near_def up d separationDist_def perceptionRadius_def)
  have u: "flock_velocity ?xs ?vs 2 0 = (1, 0, 0)"
    unfolding flock_velocity_def near Let_def by (simp add: particle_def vec_length_def)
  have one: "f64 1 = 1" using f64_int [of 1] by simp
  have sp: "computed_speed (1, 0, 0) = 1"
    by (simp add: computed_speed_def f64_0 one)
  define m :: real where "m = 8646911284551352 / 2 ^ 58"
  define w :: real where "w = 16106127 / 2 ^ 29"
  have M: "f64 0.03 = m" unfolding m_def by (rule f64_003)
  have MM: "f64 m = m"
    unfolding m_def using f64_dyadic [of 8646911284551352 58] by simp
  have f: "f32 m = w"
    unfolding m_def w_def f32_def
    using round_to_eval [of "- 6" "8646911284551352 / 2 ^ 58" 24 16106127]
    by (simp add: power_int_minus)
  from swarm_speed_limit [OF h] obtain s' ps' vs' where
    a: "animateParticles two_boids = (Normal, s')" "particleSystem s' = Some ps'"
      "velocities ps' = Some vs'" "length vs' = 3 * 2"
    and b: "\<forall>p < 2.
              let (xs, ws) = fold (swarm_particle 2) [0..<p] (positions ?ps, ?vs);
                  u = flock_velocity xs ws 2 p;
                  speed = computed_speed u
              in particle vs' p =
                   (if speed > f64 0.03 then
                      (f32 (f64 (f64 (vec_x u / speed) * f64 0.03)),
                       f32 (f64 (f64 (vec_y u / speed) * f64 0.03)),
                       f32 (f64 (f64 (vec_z u / speed) * f64 0.03)))
                    else (f32 (vec_x u), f32 (vec_y u), f32 (vec_z u))) \<and>
                 vec_length (particle vs' p) \<le> 0.03 * (1 + 1 / 2 ^ 23) \<and>
                 (speed > f64 0.03 \<longrightarrow> 0.03 * (1 - 1 / 2 ^ 23) \<le> vec_length (particle vs' p))"
    by blast
  have big: "1 > m" by (simp add: m_def)
  have z: "(0::nat) < 2" "(1::nat) < 2" by simp_all
  note c0 = b [rule_format, OF z(1), unfolded p fold_simps upt_0 id_apply prod.case Let_def u sp M
      fst_conv snd_conv]
  have v0: "particle vs' 0 = (w, 0, 0)"
    using c0 big by (simp add: MM f one f64_0 f32_0)
  have l0: "vec_length (particle vs' 0) \<le> 0.03 * (1 + 1 / 2 ^ 23)"
    using c0 by blast
  have g0: "0.03 * (1 - 1 / 2 ^ 23) \<le> vec_length (particle vs' 0)"
    using c0 big by blast
  obtain ys ws where F: "fold (swarm_particle 2) [0..<1] (positions ?ps, ?vs) = (ys, ws)"
    by (cases "fold (swarm_particle 2) [0..<1] (positions ?ps, ?vs)")
  have l1: "vec_length (particle vs' 1) \<le> 0.03 * (1 + 1 / 2 ^ 23)"
    using b [rule_format, OF z(2)] unfolding F prod.case Let_def by blast
  show ?thesis using a v0 l0 g0 l1 unfolding w_def by auto
qed

text \<open>
  A stored velocity longer than 0.03. The boid of \<open>fast_boid\<close> has no neighbour and velocity
  \<open>(1, 4, 8)\<close>, whose speed is computed as 9 without rounding. The limit stores the floats
  nearest to the doubles nearest to \<open>1 / 9\<close>, \<open>4 / 9\<close> and \<open>8 / 9\<close> times the double 0.03, a
  vector of length \<open>64424511 / 2 ^ 31\<close>, which is more than 0.03.
\<close>

theorem swarm_speed_above_limit:
  "animateParticles fast_boid =
     (Normal, fast_boid\<lparr> particleSystem :=
        Some ((small_system ''swarm'' [0, 0, 0] (Some [1, 4, 8]))
                \<lparr> positions := [7158279 / 2 ^ 31, 7158279 / 2 ^ 29, 7158279 / 2 ^ 28],
                  velocities := Some [7158279 / 2 ^ 31, 7158279 / 2 ^ 29, 7158279 / 2 ^ 28] \<rparr>) \<rparr>) \<and>
   0.03 < vec_length (7158279 / 2 ^ 31, 7158279 / 2 ^ 29, 7158279 / 2 ^ 28)"
proof -
  let ?xs = "[0, 0, 0] :: real list"
  let ?vs = "[1, 4, 8] :: real list"
  have near: "others_within separationDist ?xs 1 0 = []"
    "others_within perceptionRadius ?xs 1 0 = []"
    by (simp_all add: others_within_def is_near_def)
  have u: "flock_velocity ?xs ?vs 1 0 = (1, 4, 8)"
    unfolding flock_velocity_def near Let_def by (simp add: particle_def vec_length_def)
  have ints: "f64 1 = 1" "f64 16 = 16" "f64 17 = 17" "f64 64 = 64" "f64 81 = 81" "f64 9 = 9"
    using f64_int [of 1] f64_int [of 16] f64_int [of 17] f64_int [of 64] f64_int [of 81]
      f64_int [of 9] by simp_all
  have "sqrt 81 = sqrt (9\<^sup>2)" by simp
  then have root: "sqrt 81 = 9" by (simp only: real_sqrt_abs)
  have sp: "computed_speed (1, 4, 8) = 9"
    by (simp add: computed_speed_def ints root)
  define m :: real where "m = 8646911284551352 / 2 ^ 58"
  define q1 :: real where "q1 = 8006399337547548 / 2 ^ 56"
  define q2 :: real where "q2 = 8006399337547548 / 2 ^ 54"
  define q3 :: real where "q3 = 8006399337547548 / 2 ^ 53"
  define r1 :: real where "r1 = 7686143364045646 / 2 ^ 61"
  define r2 :: real where "r2 = 7686143364045646 / 2 ^ 59"
  define r3 :: real where "r3 = 7686143364045646 / 2 ^ 58"
  define w1 :: real where "w1 = 7158279 / 2 ^ 31"
  define w2 :: real where "w2 = 7158279 / 2 ^ 29"
  define w3 :: real where "w3 = 7158279 / 2 ^ 28"
  have M: "f64 0.03 = m" unfolding m_def by (rule f64_003)
  have q: "f64 (1 / 9) = q1" "f64 (4 / 9) = q2" "f64 (8 / 9) = q3"
    unfolding f64_def q1_def q2_def q3_def
    using round_to_eval [of "- 4" "1 / 9" 53 8006399337547548]
      round_to_eval [of "- 2" "4 / 9" 53 8006399337547548]
      round_to_eval [of "- 1" "8 / 9" 53 8006399337547548]
    by (simp_all add: power_int_minus)
  have r: "f64 (q1 * m) = r1" "f64 (q2 * m) = r2" "f64 (q3 * m) = r3"
    unfolding f64_def q1_def q2_def q3_def r1_def r2_def r3_def m_def
    using round_to_eval [of "- 9" "8006399337547548 / 2 ^ 56 * (8646911284551352 / 2 ^ 58)" 53
        7686143364045646]
      round_to_eval [of "- 7" "8006399337547548 / 2 ^ 54 * (8646911284551352 / 2 ^ 58)" 53
        7686143364045646]
      round_to_eval [of "- 6" "8006399337547548 / 2 ^ 53 * (8646911284551352 / 2 ^ 58)" 53
        7686143364045646]
    by (simp_all add: power_int_minus)
  have w: "f32 r1 = w1" "f32 r2 = w2" "f32 r3 = w3"
    unfolding f32_def r1_def r2_def r3_def w1_def w2_def w3_def
    using round_to_eval [of "- 9" "7686143364045646 / 2 ^ 61" 24 14316558]
      round_to_eval [of "- 7" "7686143364045646 / 2 ^ 59" 24 14316558]
      round_to_eval [of "- 6" "7686143364045646 / 2 ^ 58" 24 14316558]
    by (simp_all add: power_int_minus)
  have d: "f64 r1 = r1" "f64 r2 = r2" "f64 r3 = r3"
    unfolding r1_def r2_def r3_def
    using f64_dyadic [of 7686143364045646 61] f64_dyadic [of 7686143364045646 59]
      f64_dyadic [of 7686143364045646 58] by simp_all
  have big: "9 > m" by (simp add: m_def)
  have clamp: "clamp_speed (1, 4, 8) = (r1, r2, r3)"
    unfolding clamp_speed_def sp M fst_conv snd_conv using big by (simp only: if_True q r)
  have step: "swarm_particle 1 0 (?xs, ?vs) = ([w1, w2, w3], [w1, w2, w3])"
    unfolding swarm_particle_def prod.case Let_def u clamp to_float32_def fst_conv snd_conv
    by (simp add: particle_def set_particle_def d w)
  have loop: "swarm_loop (?xs, ?vs) = ([w1, w2, w3], [w1, w2, w3])"
    using swarm_loop_spec [of ?xs 1 ?vs] step by simp
  have "animateParticles fast_boid =
     (Normal, fast_boid\<lparr> particleSystem :=
        Some ((small_system ''swarm'' [0, 0, 0] (Some [1, 4, 8]))
                \<lparr> positions := [w1, w2, w3], velocities := Some [w1, w2, w3] \<rparr>) \<rparr>)"
    unfolding animateParticles_def fast_boid_def
    by (simp add: initial_state_def small_system_def loop)
  then have run: "animateParticles fast_boid =
     (Normal, fast_boid\<lparr> particleSystem :=
        Some ((small_system ''swarm'' [0, 0, 0] (Some [1, 4, 8]))
                \<lparr> positions := [7158279 / 2 ^ 31, 7158279 / 2 ^ 29, 7158279 / 2 ^ 28],
                  velocities := Some [7158279 / 2 ^ 31, 7158279 / 2 ^ 29, 7158279 / 2 ^ 28] \<rparr>) \<rparr>)"
    unfolding w1_def w2_def w3_def .
  have "(0.03::real)\<^sup>2 < 7158279 / 2 ^ 31 * (7158279 / 2 ^ 31) + 7158279 / 2 ^ 29 * (7158279 / 2 ^ 29)
          + 7158279 / 2 ^ 28 * (7158279 / 2 ^ 28)"
    by (simp add: power_divide)
  then have "0.03 < vec_length (7158279 / 2 ^ 31, 7158279 / 2 ^ 29, 7158279 / 2 ^ 28)"
    unfolding vec_length_def fst_conv snd_conv by (intro real_less_rsqrt)
  with run show ?thesis by simp
qed

subsection \<open>Arrays of objects\<close>

lemma indexOf_None: "indexOf xs x = None \<longleftrightarrow> x \<notin> set xs"
  by (induction xs) auto

lemma indexOf_nth: "distinct xs \<Longrightarrow> k < length xs \<Longrightarrow> indexOf xs (xs ! k) = Some k"
proof (induction xs arbitrary: k)
  case Nil
  then show ?case by simp
next
  case (Cons y ys)
  show ?case
  proof (cases k)
    case 0
    then show ?thesis by simp
  next
    case (Suc j)
    with Cons.prems have "ys ! j \<noteq> y" "indexOf ys (ys ! j) = Some j"
      using Cons.IH [of j] by (auto simp add: in_set_conv_nth)
    then show ?thesis using Suc by simp
  qed
qed

lemma indexOf_Some: "indexOf xs x = Some k \<Longrightarrow> k < length xs \<and> xs ! k = x"
proof (induction xs arbitrary: k)
  case Nil
  then show ?case by simp
next
  case (Cons y ys)
  show ?case
  proof (cases "y = x")
    case True
    with Cons.prems show ?thesis by simp
  next
    case False
    with Cons.prems obtain j where j: "indexOf ys x = Some j" "k = Suc j" by auto
    with Cons.IH [of j] show ?thesis by simp
  qed
qed

lemma splice1_indexOf:
  "distinct (map f xs) \<Longrightarrow> x \<in> f ` set xs \<Longrightarrow>
   splice1 (indexOf (map f xs) x) xs = filter (\<lambda>y. f y \<noteq> x) xs"
proof (induction xs)
  case Nil
  then show ?case by simp
next
  case (Cons y ys)
  show ?case
  proof (cases "f y = x")
    case True
    with Cons.prems have "x \<notin> f ` set ys" by simp
    then have "\<forall>z \<in> set ys. f z \<noteq> x" by blast
    then have "filter (\<lambda>z. f z \<noteq> x) ys = ys" by (simp add: filter_id_conv)
    then show ?thesis using True by (simp add: splice1_def)
  next
    case False
    with Cons.prems have in_ys: "x \<in> f ` set ys" and d: "distinct (map f ys)" by auto
    from in_ys obtain k where k: "indexOf (map f ys) x = Some k"
      using indexOf_None [of "map f ys" x] by (cases "indexOf (map f ys) x") auto
    have "splice1 (Some k) ys = filter (\<lambda>z. f z \<noteq> x) ys"
      using Cons.IH [OF d in_ys] k by simp
    then show ?thesis using False k by (simp add: splice1_def)
  qed
qed

lemma remove_matching:
  assumes "distinct (map f xs)"
  shows "filter (\<lambda>c. f c \<notin> f ` set (filter P xs)) xs = filter (\<lambda>c. \<not> P c) xs"
proof (rule filter_cong [OF refl])
  fix c assume c: "c \<in> set xs"
  have "f c \<in> f ` set (filter P xs) \<longleftrightarrow> P c"
  proof
    assume "f c \<in> f ` set (filter P xs)"
    then obtain r where r: "r \<in> set xs" "P r" "f r = f c" by auto
    with c assms have "r = c" by (meson distinct_map inj_onD)
    with r show "P c" by simp
  next
    assume "P c" with c show "f c \<in> f ` set (filter P xs)" by auto
  qed
  then show "(f c \<notin> f ` set (filter P xs)) = (\<not> P c)" by simp
qed

lemma scene_add_fresh: "ob \<notin> set children \<Longrightarrow> scene_add ob children = children @ [ob]"
  by (simp add: scene_add_def remove1_idem)

lemma scene_remove_filter:
  "distinct children \<Longrightarrow> scene_remove ob children = filter (\<lambda>y. y \<noteq> ob) children"
proof (cases "ob \<in> set children")
  case True
  assume d: "distinct children"
  from True obtain k where k: "indexOf children ob = Some k"
    using indexOf_None [of children ob] by (cases "indexOf children ob") auto
  have "splice1 (indexOf (map (\<lambda>y. y) children) ob) children = filter (\<lambda>y. y \<noteq> ob) children"
    using d True by (intro splice1_indexOf) auto
  then show ?thesis using k by (simp add: scene_remove_def)
next
  case False
  then have "indexOf children ob = None" by (simp add: indexOf_None)
  moreover have "filter (\<lambda>y. y \<noteq> ob) children = children"
    using False by (auto simp add: filter_id_conv)
  ultimately show ?thesis by (simp add: scene_remove_def)
qed

lemma scene_remove_set: "distinct children \<Longrightarrow> set (scene_remove ob children) = set children - {ob}"
  and scene_remove_distinct: "distinct children \<Longrightarrow> distinct (scene_remove ob children)"
  using scene_remove_filter [of children ob] by auto

lemma fold_scene_remove:
  "distinct children \<Longrightarrow>
   distinct (fold (\<lambda>x. scene_remove (f x)) xs children) \<and>
   set (fold (\<lambda>x. scene_remove (f x)) xs children) = set children - f ` set xs"
proof (induction xs arbitrary: children)
  case Nil
  then show ?case by simp
next
  case (Cons x xs)
  have d: "distinct (scene_remove (f x) children)"
    and s: "set (scene_remove (f x) children) = set children - {f x}"
    using scene_remove_filter [OF Cons.prems, of "f x"] Cons.prems by auto
  from Cons.IH [OF d] show ?case unfolding s by auto
qed

subsection \<open>Deleting a node\<close>

text \<open>
  Claim C8. \<^verbatim>\<open>deleteNode\<close> called with an object that is not in the \<^verbatim>\<open>nodes\<close> array is a no-op:
  the whole state, with the \<^verbatim>\<open>nodes\<close> array, the \<^verbatim>\<open>connections\<close> array and the scene, is
  unchanged.
\<close>

theorem deleteNode_absent:
  assumes "node_id n \<notin> set (map node_id (nodes s))"
  shows "deleteNode n s = s"
  using assms indexOf_None [of "map node_id (nodes s)" "node_id n"]
  by (simp add: deleteNode_def)

theorem deleteNode_absent_witness:
  "node_id (node_at 99 (1, 1, 1)) \<notin> set (map node_id (nodes three_nodes)) \<and>
   deleteNode (node_at 99 (1, 1, 1)) three_nodes = three_nodes"
proof -
  have h: "node_id (node_at 99 (1, 1, 1)) \<notin> set (map node_id (nodes three_nodes))"
    by (simp add: three_nodes_def node_at_def)
  show ?thesis using h deleteNode_absent [OF h] by simp
qed

lemma remove_connection_fields:
  assumes "distinct (map conn_id (connections s))" "conn_id r \<in> conn_id ` set (connections s)"
  shows "connections (remove_connection r s) = filter (\<lambda>c. conn_id c \<noteq> conn_id r) (connections s)"
    and "nodes (remove_connection r s) = nodes s"
  using splice1_indexOf [OF assms]
  by (simp_all add: remove_connection_def Let_def)

lemma fold_remove_connection:
  assumes "distinct (map conn_id (connections s))" "distinct (map conn_id rs)"
    "conn_id ` set rs \<subseteq> conn_id ` set (connections s)"
  shows "connections (fold remove_connection rs s) =
           filter (\<lambda>c. conn_id c \<notin> conn_id ` set rs) (connections s) \<and>
         nodes (fold remove_connection rs s) = nodes s"
  using assms
proof (induction rs arbitrary: s)
  case Nil
  then show ?case by simp
next
  case (Cons r rs)
  let ?s1 = "remove_connection r s"
  have r_in: "conn_id r \<in> conn_id ` set (connections s)" using Cons.prems(3) by simp
  have c1: "connections ?s1 = filter (\<lambda>c. conn_id c \<noteq> conn_id r) (connections s)"
    and n1: "nodes ?s1 = nodes s"
    using remove_connection_fields [OF Cons.prems(1) r_in] by simp_all
  have d1: "distinct (map conn_id (connections ?s1))"
    unfolding c1 using Cons.prems(1) by (simp add: distinct_map_filter)
  have d2: "distinct (map conn_id rs)" and notin: "conn_id r \<notin> conn_id ` set rs"
    using Cons.prems(2) by simp_all
  have sub: "conn_id ` set rs \<subseteq> conn_id ` set (connections ?s1)"
  proof
    fix i assume i: "i \<in> conn_id ` set rs"
    then have "i \<noteq> conn_id r" using notin by blast
    moreover from i Cons.prems(3) have "i \<in> conn_id ` set (connections s)" by auto
    ultimately show "i \<in> conn_id ` set (connections ?s1)" unfolding c1 by auto
  qed
  from Cons.IH [OF d1 d2 sub] have
    "connections (fold remove_connection rs ?s1) =
       filter (\<lambda>c. conn_id c \<notin> conn_id ` set rs) (connections ?s1)"
    "nodes (fold remove_connection rs ?s1) = nodes ?s1" by simp_all
  then show ?case unfolding c1 n1 by (auto intro: filter_cong)
qed

lemma fold_remove_connection_rest:
  "scene (fold remove_connection rs s) = fold (\<lambda>r. scene_remove (conn_id r)) rs (scene s) \<and>
   dataPulses (fold remove_connection rs s) = dataPulses s \<and>
   next_id (fold remove_connection rs s) = next_id s"
  by (induction rs arbitrary: s) (simp_all add: remove_connection_def Let_def)

lemma deleteNode_result:
  assumes k: "k < length (nodes s)" and dn: "distinct (map node_id (nodes s))"
    and dc: "distinct (map conn_id (connections s))"
  shows "nodes (deleteNode (nodes s ! k) s) = take k (nodes s) @ drop (k + 1) (nodes s)"
    and "connections (deleteNode (nodes s ! k) s) =
           map (update_indices k) (filter (\<lambda>c. \<not> incident k c) (connections s))"
proof -
  have idx: "indexOf (map node_id (nodes s)) (node_id (nodes s ! k)) = Some k"
    using indexOf_nth [OF dn, of k] k by simp
  let ?rs = "filter (incident k) (connections s)"
  have "distinct (map conn_id ?rs)" using dc by (simp add: distinct_map_filter)
  moreover have "conn_id ` set ?rs \<subseteq> conn_id ` set (connections s)" by auto
  ultimately have f: "connections (fold remove_connection ?rs s) =
      filter (\<lambda>c. \<not> incident k c) (connections s)"
    "nodes (fold remove_connection ?rs s) = nodes s"
    using fold_remove_connection [OF dc, of ?rs] remove_matching [OF dc, of "incident k"]
    by simp_all
  show "nodes (deleteNode (nodes s ! k) s) = take k (nodes s) @ drop (k + 1) (nodes s)"
    by (simp add: deleteNode_def idx Let_def f splice1_def)
  show "connections (deleteNode (nodes s ! k) s) =
           map (update_indices k) (filter (\<lambda>c. \<not> incident k c) (connections s))"
    by (simp add: deleteNode_def idx Let_def f)
qed

lemma same_target_shift:
  assumes "k < length ns" "valid_index ns a" "a \<noteq> Some k"
  shows "same_target ns (take k ns @ drop (k + 1) ns) a (decrement_above k a)"
proof (cases a)
  case None
  then show ?thesis by (simp add: same_target_def decrement_above_def)
next
  case (Some i)
  with assms have i: "i < length ns" "i \<noteq> k" by (simp_all add: valid_index_def)
  show ?thesis
  proof (cases "i > k")
    case True
    then have "(take k ns @ drop (k + 1) ns) ! (i - 1) = ns ! i"
      using assms(1) i by (simp add: nth_append min_def)
    then show ?thesis using True i assms(1) Some
      by (simp add: same_target_def decrement_above_def)
  next
    case False
    with i have lt: "i < k" by simp
    then have "(take k ns @ drop (k + 1) ns) ! i = ns ! i"
      using assms(1) by (simp add: nth_append)
    then show ?thesis using lt assms(1) Some
      by (simp add: same_target_def decrement_above_def)
  qed
qed

lemma same_target_valid: "same_target old new a a' \<Longrightarrow> valid_index new a'"
  by (auto simp add: same_target_def valid_index_def split: option.splits)

lemma update_indices_fields:
  "nodeIndex (update_indices k c) = decrement_above k (nodeIndex c)"
  "nodeIndex1 (update_indices k c) = decrement_above k (nodeIndex1 c)"
  "nodeIndex2 (update_indices k c) = decrement_above k (nodeIndex2 c)"
  "conn_id (update_indices k c) = conn_id c"
  by (simp_all add: update_indices_def Let_def)

text \<open>
  Claim C2. Let \<^verbatim>\<open>deleteNode\<close> remove the node at position \<open>k\<close> of the \<^verbatim>\<open>nodes\<close> array, in a
  state whose nodes and connections are distinct objects and whose connections store valid
  indices. Afterwards every remaining connection is one of the connections before, and each
  index it stores (\<^verbatim>\<open>nodeIndex\<close>, \<^verbatim>\<open>nodeIndex1\<close>, \<^verbatim>\<open>nodeIndex2\<close>) is a valid index into the new
  \<^verbatim>\<open>nodes\<close> array at which the node is the one the index referred to before; every connection
  incident to the deleted node is gone from the \<^verbatim>\<open>connections\<close> array, and no other is.
\<close>

theorem deleteNode_keeps_indices:
  assumes "k < length (nodes s)"
    and "distinct (map node_id (nodes s))"
    and "distinct (map conn_id (connections s))"
    and "\<forall>c \<in> set (connections s). valid_connection (nodes s) c"
  shows "(let s' = deleteNode (nodes s ! k) s in
           nodes s' = take k (nodes s) @ drop (k + 1) (nodes s) \<and>
           (\<forall>c' \<in> set (connections s'). \<exists>c \<in> set (connections s).
               conn_id c = conn_id c' \<and>
               same_target (nodes s) (nodes s') (nodeIndex c) (nodeIndex c') \<and>
               same_target (nodes s) (nodes s') (nodeIndex1 c) (nodeIndex1 c') \<and>
               same_target (nodes s) (nodes s') (nodeIndex2 c) (nodeIndex2 c')) \<and>
           (\<forall>c \<in> set (connections s).
               incident k c \<longrightarrow> conn_id c \<notin> conn_id ` set (connections s')) \<and>
           (\<forall>c \<in> set (connections s).
               \<not> incident k c \<longrightarrow> conn_id c \<in> conn_id ` set (connections s')))"
proof -
  let ?s' = "deleteNode (nodes s ! k) s"
  let ?ns' = "take k (nodes s) @ drop (k + 1) (nodes s)"
  note r = deleteNode_result [OF assms(1,2,3)]
  have a: "\<exists>c \<in> set (connections s).
               conn_id c = conn_id c' \<and>
               same_target (nodes s) ?ns' (nodeIndex c) (nodeIndex c') \<and>
               same_target (nodes s) ?ns' (nodeIndex1 c) (nodeIndex1 c') \<and>
               same_target (nodes s) ?ns' (nodeIndex2 c) (nodeIndex2 c')"
    if "c' \<in> set (connections ?s')" for c'
  proof -
    from that obtain c where c: "c \<in> set (connections s)" "\<not> incident k c"
      "c' = update_indices k c" unfolding r(2) by auto
    from c(1) assms(4) have v: "valid_index (nodes s) (nodeIndex c)"
      "valid_index (nodes s) (nodeIndex1 c)" "valid_index (nodes s) (nodeIndex2 c)"
      by (auto simp add: valid_connection_def)
    from c(2) have ne: "nodeIndex c \<noteq> Some k" "nodeIndex1 c \<noteq> Some k" "nodeIndex2 c \<noteq> Some k"
      by (simp_all add: incident_def)
    show ?thesis
      using c(1) same_target_shift [OF assms(1) v(1) ne(1)]
        same_target_shift [OF assms(1) v(2) ne(2)] same_target_shift [OF assms(1) v(3) ne(3)]
      unfolding c(3) update_indices_fields by (intro bexI [of _ c]) simp_all
  qed
  have ids: "conn_id ` set (connections ?s') =
             conn_id ` set (filter (\<lambda>c. \<not> incident k c) (connections s))"
    unfolding r(2) by (simp add: image_image update_indices_fields)
  have b: "conn_id c \<notin> conn_id ` set (connections ?s')"
    if "c \<in> set (connections s)" "incident k c" for c
  proof
    assume "conn_id c \<in> conn_id ` set (connections ?s')"
    then obtain c0 where c0: "c0 \<in> set (connections s)" "\<not> incident k c0" "conn_id c0 = conn_id c"
      unfolding ids by auto
    with that(1) assms(3) have "c0 = c" by (meson distinct_map inj_onD)
    with c0 that(2) show False by simp
  qed
  have c: "conn_id c \<in> conn_id ` set (connections ?s')"
    if "c \<in> set (connections s)" "\<not> incident k c" for c
    unfolding ids using that by auto
  show ?thesis
    unfolding Let_def r(1) using a b c by (intro conjI ballI impI refl) blast+
qed

theorem deleteNode_keeps_indices_witness:
  "nodes (deleteNode (nodes three_nodes ! 1) three_nodes) =
     [node_at 10 (3, 0, 0), node_at 12 (5 / 2, 0, 3)] \<and>
   connections (deleteNode (nodes three_nodes ! 1) three_nodes) =
     [core_line 20 0 (3, 0, 0), core_line 23 1 (5 / 2, 0, 3)] \<and>
   21 \<notin> conn_id ` set (connections (deleteNode (nodes three_nodes ! 1) three_nodes)) \<and>
   22 \<notin> conn_id ` set (connections (deleteNode (nodes three_nodes ! 1) three_nodes))"
proof -
  have h: "1 < length (nodes three_nodes)"
    "distinct (map node_id (nodes three_nodes))"
    "distinct (map conn_id (connections three_nodes))"
    "\<forall>c \<in> set (connections three_nodes). valid_connection (nodes three_nodes) c"
    by (simp_all add: three_nodes_def node_at_def core_line_def node_line_def
        valid_connection_def valid_index_def)
  have inc: "node_line 21 0 1 (3, 0, 0) (5 / 2, 4, 0) \<in> set (connections three_nodes)"
    "incident 1 (node_line 21 0 1 (3, 0, 0) (5 / 2, 4, 0))"
    "node_line 22 1 2 (5 / 2, 4, 0) (5 / 2, 0, 3) \<in> set (connections three_nodes)"
    "incident 1 (node_line 22 1 2 (5 / 2, 4, 0) (5 / 2, 0, 3))"
    by (simp_all add: three_nodes_def incident_def node_line_def)
  have ids: "conn_id (node_line 21 0 1 (3, 0, 0) (5 / 2, 4, 0)) = 21"
    "conn_id (node_line 22 1 2 (5 / 2, 4, 0) (5 / 2, 0, 3)) = 22"
    by (simp_all add: node_line_def)
  have ns: "take 1 (nodes three_nodes) @ drop (1 + 1) (nodes three_nodes) =
            [node_at 10 (3, 0, 0), node_at 12 (5 / 2, 0, 3)]"
    by (simp add: three_nodes_def)
  have cs: "connections (deleteNode (nodes three_nodes ! 1) three_nodes) =
     [core_line 20 0 (3, 0, 0), core_line 23 1 (5 / 2, 0, 3)]"
    by (simp add: three_nodes_def deleteNode_def node_at_def core_line_def node_line_def
        incident_def remove_connection_def splice1_def update_indices_def decrement_above_def
        scene_remove_def initial_state_def Let_def)
  from deleteNode_keeps_indices [OF h] have
    a: "nodes (deleteNode (nodes three_nodes ! 1) three_nodes) =
          take 1 (nodes three_nodes) @ drop (1 + 1) (nodes three_nodes)"
    and b: "\<forall>c \<in> set (connections three_nodes). incident 1 c \<longrightarrow>
              conn_id c \<notin> conn_id ` set (connections (deleteNode (nodes three_nodes ! 1) three_nodes))"
    unfolding Let_def by blast+
  from b inc ids have
    "21 \<notin> conn_id ` set (connections (deleteNode (nodes three_nodes ! 1) three_nodes))"
    "22 \<notin> conn_id ` set (connections (deleteNode (nodes three_nodes ! 1) three_nodes))"
    by metis+
  with a ns cs show ?thesis by (simp only: simp_thms)
qed

subsection \<open>Data pulses\<close>

lemma advance_pulse_fields:
  "pulse_id (advance_pulse p) = pulse_id p"
  "progress (advance_pulse p) = progress p + pulse_speed p"
  by (simp_all add: advance_pulse_def Let_def)

lemma fold_remove_pulse:
  assumes "distinct (map pulse_id (dataPulses s))" "distinct (map pulse_id rs)"
    "pulse_id ` set rs \<subseteq> pulse_id ` set (dataPulses s)" "distinct (scene s)"
  shows "dataPulses (fold remove_pulse rs s) =
           filter (\<lambda>p. pulse_id p \<notin> pulse_id ` set rs) (dataPulses s) \<and>
         set (scene (fold remove_pulse rs s)) = set (scene s) - pulse_id ` set rs \<and>
         distinct (scene (fold remove_pulse rs s))"
  using assms
proof (induction rs arbitrary: s)
  case Nil
  then show ?case by simp
next
  case (Cons r rs)
  let ?s1 = "remove_pulse r s"
  have r_in: "pulse_id r \<in> pulse_id ` set (dataPulses s)" using Cons.prems(3) by simp
  have c1: "dataPulses ?s1 = filter (\<lambda>p. pulse_id p \<noteq> pulse_id r) (dataPulses s)"
    using splice1_indexOf [OF Cons.prems(1) r_in] by (simp add: remove_pulse_def Let_def)
  have sc1: "scene ?s1 = scene_remove (pulse_id r) (scene s)"
    by (simp add: remove_pulse_def Let_def)
  have sc: "set (scene ?s1) = set (scene s) - {pulse_id r}" "distinct (scene ?s1)"
    unfolding sc1 using scene_remove_set [OF Cons.prems(4)] scene_remove_distinct [OF Cons.prems(4)]
    by simp_all
  have d1: "distinct (map pulse_id (dataPulses ?s1))"
    unfolding c1 using Cons.prems(1) by (simp add: distinct_map_filter)
  have d2: "distinct (map pulse_id rs)" and notin: "pulse_id r \<notin> pulse_id ` set rs"
    using Cons.prems(2) by simp_all
  have sub: "pulse_id ` set rs \<subseteq> pulse_id ` set (dataPulses ?s1)"
  proof
    fix i assume i: "i \<in> pulse_id ` set rs"
    then have "i \<noteq> pulse_id r" using notin by blast
    moreover from i Cons.prems(3) have "i \<in> pulse_id ` set (dataPulses s)" by auto
    ultimately show "i \<in> pulse_id ` set (dataPulses ?s1)" unfolding c1 by auto
  qed
  from Cons.IH [OF d1 d2 sub sc(2)] have
    "dataPulses (fold remove_pulse rs ?s1) =
       filter (\<lambda>p. pulse_id p \<notin> pulse_id ` set rs) (dataPulses ?s1)"
    "set (scene (fold remove_pulse rs ?s1)) = set (scene ?s1) - pulse_id ` set rs"
    "distinct (scene (fold remove_pulse rs ?s1))" by simp_all
  then show ?case unfolding c1 sc(1) by (auto intro: filter_cong)
qed

lemma fold_remove_pulse_rest:
  "nodes (fold remove_pulse rs s) = nodes s \<and>
   connections (fold remove_pulse rs s) = connections s \<and>
   next_id (fold remove_pulse rs s) = next_id s"
  by (induction rs arbitrary: s) (simp_all add: remove_pulse_def Let_def)

lemma animateDataPulses_result:
  assumes "distinct (map pulse_id (dataPulses s))" "distinct (scene s)"
  shows "dataPulses (animateDataPulses s) =
           filter (\<lambda>p. progress p < 1) (map advance_pulse (dataPulses s))"
    and "set (scene (animateDataPulses s)) =
           set (scene s) - pulse_id ` {p \<in> set (dataPulses s). progress p + pulse_speed p \<ge> 1}"
proof -
  let ?ps = "map advance_pulse (dataPulses s)"
  let ?s1 = "s\<lparr> dataPulses := ?ps \<rparr>"
  let ?rs = "filter (\<lambda>p. progress p \<ge> 1) ?ps"
  have ids: "map pulse_id ?ps = map pulse_id (dataPulses s)"
    by (simp add: advance_pulse_fields comp_def)
  have d0: "distinct (map pulse_id ?ps)" unfolding ids by (rule assms(1))
  have ps1: "dataPulses ?s1 = ?ps" by simp
  have d: "distinct (map pulse_id (dataPulses ?s1))" unfolding ps1 by (rule d0)
  have drs: "distinct (map pulse_id ?rs)"
    using d0 by (rule distinct_map_filter)
  have sub: "pulse_id ` set ?rs \<subseteq> pulse_id ` set (dataPulses ?s1)" unfolding ps1 by auto
  have sc: "distinct (scene ?s1)" using assms(2) by simp
  have run: "animateDataPulses s = fold remove_pulse ?rs ?s1"
    by (simp add: animateDataPulses_def Let_def)
  note f = fold_remove_pulse [OF d drs sub sc]
  have "dataPulses (animateDataPulses s) =
          filter (\<lambda>p. pulse_id p \<notin> pulse_id ` set ?rs) ?ps"
    unfolding run using f by simp
  also have "\<dots> = filter (\<lambda>p. \<not> progress p \<ge> 1) ?ps"
    using remove_matching [OF d0, of "\<lambda>p. progress p \<ge> 1"] by simp
  finally show "dataPulses (animateDataPulses s) = filter (\<lambda>p. progress p < 1) ?ps"
    by (simp add: not_le)
  have "pulse_id ` set ?rs =
        pulse_id ` {p \<in> set (dataPulses s). progress p + pulse_speed p \<ge> 1}"
    by (auto simp add: advance_pulse_fields image_iff) (metis advance_pulse_fields)+
  then show "set (scene (animateDataPulses s)) =
           set (scene s) - pulse_id ` {p \<in> set (dataPulses s). progress p + pulse_speed p \<ge> 1}"
    unfolding run using f by simp
qed

text \<open>
  Claim C10. After a call of \<^verbatim>\<open>animateDataPulses\<close>, in a state whose pulses are distinct objects
  that occur once among the children of the scene, every pulse left in \<^verbatim>\<open>dataPulses\<close> has
  progress strictly below 1, and every pulse whose progress reached 1 or more in the call is
  gone from \<^verbatim>\<open>dataPulses\<close> and from the scene.
\<close>

theorem animateDataPulses_removes_finished:
  assumes "distinct (map pulse_id (dataPulses s))" and "distinct (scene s)"
  shows "(let s' = animateDataPulses s in
           (\<forall>p \<in> set (dataPulses s'). progress p < 1) \<and>
           (\<forall>p \<in> set (dataPulses s).
               progress p + pulse_speed p \<ge> 1 \<longrightarrow>
                 pulse_id p \<notin> pulse_id ` set (dataPulses s') \<and> pulse_id p \<notin> set (scene s')) \<and>
           dataPulses s' = filter (\<lambda>p. progress p < 1) (map advance_pulse (dataPulses s)))"
proof -
  note r = animateDataPulses_result [OF assms]
  have a: "\<forall>p \<in> set (dataPulses (animateDataPulses s)). progress p < 1"
    unfolding r(1) by simp
  have b: "pulse_id p \<notin> pulse_id ` set (dataPulses (animateDataPulses s)) \<and>
           pulse_id p \<notin> set (scene (animateDataPulses s))"
    if p: "p \<in> set (dataPulses s)" "progress p + pulse_speed p \<ge> 1" for p
  proof
    show "pulse_id p \<notin> pulse_id ` set (dataPulses (animateDataPulses s))"
    proof
      assume "pulse_id p \<in> pulse_id ` set (dataPulses (animateDataPulses s))"
      then obtain q where q: "q \<in> set (dataPulses s)" "progress (advance_pulse q) < 1"
        "pulse_id (advance_pulse q) = pulse_id p" unfolding r(1) by auto
      then have "pulse_id q = pulse_id p" by (simp add: advance_pulse_fields)
      with q(1) p(1) assms(1) have "q = p" by (meson distinct_map inj_onD)
      with q(2) p(2) show False by (simp add: advance_pulse_fields)
    qed
    show "pulse_id p \<notin> set (scene (animateDataPulses s))"
      unfolding r(2) using p by auto
  qed
  show ?thesis
    unfolding Let_def using a b r(1) by (intro conjI ballI impI) blast+
qed

theorem animateDataPulses_removes_finished_witness:
  "map pulse_id (dataPulses (animateDataPulses three_nodes)) = [32] \<and>
   map progress (dataPulses (animateDataPulses three_nodes)) = [0.52] \<and>
   30 \<notin> set (scene (animateDataPulses three_nodes))"
proof -
  have h: "distinct (map pulse_id (dataPulses three_nodes))" "distinct (scene three_nodes)"
    by (simp_all add: three_nodes_def pulse_at_def)
  have p: "pulse_at 30 0.99 0.02 \<in> set (dataPulses three_nodes)"
    "progress (pulse_at 30 0.99 0.02) + pulse_speed (pulse_at 30 0.99 0.02) \<ge> 1"
    "pulse_id (pulse_at 30 0.99 0.02) = 30"
    by (simp_all add: three_nodes_def pulse_at_def)
  have f: "filter (\<lambda>p. progress p < 1) (map advance_pulse (dataPulses three_nodes)) =
           [advance_pulse (pulse_at 32 0.5 0.02)]"
    by (simp add: three_nodes_def advance_pulse_fields pulse_at_def)
  have g: "pulse_id (advance_pulse (pulse_at 32 0.5 0.02)) = 32"
    "progress (advance_pulse (pulse_at 32 0.5 0.02)) = 0.52"
    by (simp_all add: advance_pulse_fields pulse_at_def)
  from animateDataPulses_removes_finished [OF h] have
    a: "dataPulses (animateDataPulses three_nodes) = [advance_pulse (pulse_at 32 0.5 0.02)]"
    and b: "\<forall>p \<in> set (dataPulses three_nodes).
               progress p + pulse_speed p \<ge> 1 \<longrightarrow>
                 pulse_id p \<notin> pulse_id ` set (dataPulses (animateDataPulses three_nodes)) \<and>
                 pulse_id p \<notin> set (scene (animateDataPulses three_nodes))"
    unfolding Let_def f by blast+
  from b p have "30 \<notin> set (scene (animateDataPulses three_nodes))" by metis
  with a g show ?thesis by simp
qed

subsection \<open>A click that misses the plane\<close>

lemma missing_ray_misses:
  "intersectPlane missing_ray ((0, 0, 1), 0) (0, 0, 0) = (None, (0, 0, 0))"
  by (simp add: intersectPlane_def distanceToPlane_def missing_ray_def dot_def Let_def)

text \<open>
  Claim C1 says that a click in add-node mode whose ray does not meet the plane \<open>z = 0\<close> adds
  no node and no connection. The handler tests the target vector, which is an object and so
  always truthy, instead of the value \<^verbatim>\<open>intersectPlane\<close> returns: with the ray \<open>missing_ray\<close>,
  which points away from the plane, the target stays \<open>(0, 0, 0)\<close>, is pushed out to
  \<open>(2.5, 0, z)\<close>, and \<^verbatim>\<open>addNode\<close> appends a node there and connects it to the three nodes
  nearby.
\<close>

theorem click_without_intersection_adds_node:
  "fst (intersectPlane missing_ray ((0, 0, 1), 0) (0, 0, 0)) = None \<and>
   (let s = three_nodes\<lparr> addingNode := True \<rparr>;
        s' = snd (onCanvasClick missing_ray s)
    in fst (onCanvasClick missing_ray s) = Normal \<and>
       length (nodes s) = 3 \<and> length (nodes s') = 4 \<and>
       position (last (nodes s')) = (5 / 2, 0, 0) \<and>
       length (connections s) = 4 \<and> length (connections s') = 7)"
proof -
  let ?s = "three_nodes\<lparr> addingNode := True \<rparr>"
  have d: "distanceTo (5 / 2, 0, 0) (3, 0, 0) = 1 / 2"
    "distanceTo (5 / 2, 0, 0) (5 / 2, 4, 0) = 4"
    "distanceTo (5 / 2, 0, 0) (5 / 2, 0, 3) = 3"
    by (simp_all add: distanceTo_def real_sqrt_divide)
  have up: "[0..<3] = [0, 1, 2]" by (simp add: upt_rec)
  have get: "VIZ_PRESETS_get ''neural'' = Own (the (map_of VIZ_PRESETS ''neural''))"
    by (simp add: VIZ_PRESETS_get_def VIZ_PRESETS_def)
  have run: "onCanvasClick missing_ray ?s = addNode (5 / 2, 0, 0) (?s\<lparr> random_used := 1 \<rparr>)"
    by (simp add: onCanvasClick_def missing_ray_misses truthy_def atan2_def three_nodes_def
        initial_state_def Let_def)
  show ?thesis
    unfolding run Let_def
    by (simp add: missing_ray_misses addNode_def connectNewNode_def connectNewNode_body_def
        for1_fold up d get three_nodes_def initial_state_def node_at_def push_line_def
        js_less_def js_times_def CONFIG_initial_def scene_add_def Let_def)
qed

subsection \<open>Switching to a key that is not a preset\<close>


text \<open>
  For a key that is neither a preset key nor a property name of \<^verbatim>\<open>Object.prototype\<close> the call
  does return at once and changes nothing.
\<close>

lemma switchVisualization_unknown_key:
  assumes "key \<notin> set (map fst VIZ_PRESETS)" "key \<notin> set Object_prototype_keys"
  shows "switchVisualization key s = (Normal, s)"
proof -
  have "map_of VIZ_PRESETS key = None" using assms(1) by (simp add: map_of_eq_None_iff)
  then show ?thesis using assms(2) by (simp add: switchVisualization_def VIZ_PRESETS_get_def)
qed

subsection \<open>Well-formed states\<close>

text \<open>
  The hypotheses of the theorems on \<^verbatim>\<open>deleteNode\<close> and \<^verbatim>\<open>animateDataPulses\<close> hold in every
  well-formed state. The state with an empty scene is well formed, and every operation of the
  model keeps a well-formed state well formed, whether it returns or throws.
\<close>

lemma well_formed_initial: "well_formed (initial_state R)"
  by (simp add: well_formed_def initial_state_def ids_below_def)

lemma valid_connection_grow:
  "valid_connection ns c \<Longrightarrow> valid_connection (ns @ ms) c"
  by (auto simp add: valid_connection_def valid_index_def split: option.splits)

lemma well_formed_globals:
  "well_formed s \<Longrightarrow> well_formed (s\<lparr> currentViz := v \<rparr>)"
  "well_formed s \<Longrightarrow> well_formed (s\<lparr> CONFIG := c \<rparr>)"
  by (simp_all add: well_formed_def ids_below_def)

lemma well_formed_random_used:
  "well_formed s \<Longrightarrow> well_formed (s\<lparr> random_used := k \<rparr>)"
  by (simp add: well_formed_def ids_below_def)

lemma well_formed_animateParticles:
  "well_formed s \<Longrightarrow> well_formed (snd (animateParticles s))"
  by (auto simp add: animateParticles_def well_formed_def ids_below_def Let_def
      split: option.splits prod.splits)

lemma well_formed_applyMouseGravity:
  "well_formed s \<Longrightarrow> well_formed (applyMouseGravity s)"
  by (auto simp add: applyMouseGravity_def well_formed_def ids_below_def split: option.splits)

lemma well_formed_updateLightsForPreset:
  "well_formed s \<Longrightarrow> well_formed (updateLightsForPreset pr s)"
  by (simp add: updateLightsForPreset_def well_formed_def ids_below_def)

lemma well_formed_createLights:
  assumes "well_formed s"
  shows "well_formed (createLights s)"
proof -
  from assms have fresh: "\<forall>i \<in> set (scene s). i < next_id s"
    by (simp add: well_formed_def ids_below_def)
  then have a: "next_id s \<notin> set (scene s)" "next_id s + 1 \<notin> set (scene s)"
    "next_id s + 2 \<notin> set (scene s)" "next_id s + 3 \<notin> set (scene s)" by auto
  have sc: "scene (createLights s) =
              scene s @ [next_id s, next_id s + 1, next_id s + 2, next_id s + 3]"
    using a by (simp add: createLights_def Let_def scene_add_fresh)
  show ?thesis
    using assms a fresh unfolding well_formed_def ids_below_def sc
    by (auto simp add: createLights_def Let_def)
qed

lemma well_formed_createCoreNode:
  assumes "well_formed s"
  shows "well_formed (createCoreNode s)"
proof -
  from assms have fresh: "\<forall>i \<in> set (scene s). i < next_id s"
    by (simp add: well_formed_def ids_below_def)
  then have a: "next_id s \<notin> set (scene s)" "next_id s + 1 \<notin> set (scene s)" by auto
  have sc: "scene (createCoreNode s) = scene s @ [next_id s, next_id s + 1]"
    using a by (simp add: createCoreNode_def Let_def scene_add_fresh)
  show ?thesis
    using assms a fresh unfolding well_formed_def ids_below_def sc
    by (auto simp add: createCoreNode_def Let_def less_Suc_eq)
qed

lemma well_formed_createParticles:
  assumes "well_formed s"
  shows "well_formed (createParticles s)"
proof -
  from assms have fresh: "\<forall>i \<in> set (scene s). i < next_id s"
    by (simp add: well_formed_def ids_below_def)
  then have a: "next_id s \<notin> set (scene s)" by auto
  show ?thesis
    using assms a unfolding well_formed_def ids_below_def
    by (auto simp add: createParticles_def Let_def scene_add_fresh less_Suc_eq
        split: prod.splits)
qed

lemma well_formed_createParticlesForPreset:
  assumes "well_formed s"
  shows "well_formed (createParticlesForPreset pr s)"
proof -
  from assms have fresh: "\<forall>i \<in> set (scene s). i < next_id s"
    by (simp add: well_formed_def ids_below_def)
  then have a: "next_id s \<notin> set (scene s)" by auto
  show ?thesis
    using assms a unfolding well_formed_def ids_below_def
    by (auto simp add: createParticlesForPreset_def Let_def scene_add_fresh less_Suc_eq
        split: prod.splits)
qed

lemma well_formed_clearScene:
  assumes "well_formed s"
  shows "well_formed (clearScene s)"
proof -
  from assms have d: "distinct (scene s)" by (simp add: well_formed_def)
  let ?c1 = "fold (\<lambda>n. scene_remove (node_id n)) (nodes s) (scene s)"
  let ?c2 = "fold (\<lambda>c. scene_remove (conn_id c)) (connections s) ?c1"
  have d1: "distinct ?c1" "set ?c1 \<subseteq> set (scene s)"
    using fold_scene_remove [OF d, of node_id "nodes s"] by auto
  have d2: "distinct ?c2" "set ?c2 \<subseteq> set (scene s)"
    using fold_scene_remove [OF d1(1), of conn_id "connections s"] d1(2) by auto
  have d3: "distinct (scene_remove x ?c2)" "set (scene_remove x ?c2) \<subseteq> set (scene s)" for x
    using scene_remove_filter [OF d2(1), of x] d2 by auto
  have d4: "distinct (scene_remove y (scene_remove x ?c2))"
    "set (scene_remove y (scene_remove x ?c2)) \<subseteq> set (scene s)" for x y
    using scene_remove_filter [OF d3(1), of y x] d3 [of x] by auto
  have d5: "distinct (scene_remove y ?c2)" for y by (rule d3)
  have sub: "distinct (scene (clearScene s)) \<and> set (scene (clearScene s)) \<subseteq> set (scene s)"
    using d2 d3 d4 by (auto simp add: clearScene_def Let_def split: option.splits)
  have rest: "nodes (clearScene s) = []" "connections (clearScene s) = []"
    "dataPulses (clearScene s) = dataPulses s" "next_id (clearScene s) = next_id s"
    by (simp_all add: clearScene_def Let_def split: option.splits)
  show ?thesis
    using assms sub unfolding well_formed_def ids_below_def rest by auto
qed

lemma well_formed_createNodes_body:
  assumes "well_formed s"
  shows "well_formed (createNodes_body i s)"
proof -
  from assms have fresh: "ids_below s" by (simp add: well_formed_def)
  then have a: "next_id s \<notin> set (scene s)" "next_id s \<notin> node_id ` set (nodes s)"
    by (auto simp add: ids_below_def)
  have f0: "scene (createNodes_body i s) = scene s @ [next_id s]"
    "connections (createNodes_body i s) = connections s"
    "dataPulses (createNodes_body i s) = dataPulses s"
    "next_id (createNodes_body i s) = next_id s + 1"
    using a(1) by (simp_all add: createNodes_body_def Let_def scene_add_fresh split: prod.splits)
  have "\<exists>n. node_id n = next_id s \<and> nodes (createNodes_body i s) = nodes s @ [n]"
    by (simp add: createNodes_body_def Let_def split: prod.splits)
  then obtain n where n: "node_id n = next_id s"
    and f1: "nodes (createNodes_body i s) = nodes s @ [n]" by blast
  note f = f0 f1
  have v: "\<forall>c \<in> set (connections s). valid_connection (nodes s @ [n]) c"
    using assms valid_connection_grow by (simp add: well_formed_def)
  have b: "ids_below (createNodes_body i s)"
    using fresh unfolding ids_below_def f by (auto simp add: n less_Suc_eq)
  show ?thesis
    unfolding well_formed_def f using assms a v b n by (simp add: well_formed_def)
qed

lemma well_formed_fold:
  "(\<And>i s. well_formed s \<Longrightarrow> well_formed (body i s)) \<Longrightarrow> well_formed s \<Longrightarrow>
   well_formed (fold body is s)"
  by (induction "is" arbitrary: s) simp_all

lemma well_formed_createNodes: "well_formed s \<Longrightarrow> well_formed (createNodes s)"
  by (simp add: createNodes_def for1_fold well_formed_fold well_formed_createNodes_body)

lemma well_formed_push_line:
  assumes "well_formed s" "conn_id line = next_id s" "valid_connection (nodes s) line"
  shows "well_formed (push_line line s)" and "nodes (push_line line s) = nodes s"
proof -
  from assms(1) have fresh: "ids_below s" by (simp add: well_formed_def)
  then have a: "next_id s \<notin> set (scene s)" "next_id s \<notin> conn_id ` set (connections s)"
    by (auto simp add: ids_below_def)
  have f: "scene (push_line line s) = scene s @ [next_id s]"
    "connections (push_line line s) = connections s @ [line]"
    "nodes (push_line line s) = nodes s" "dataPulses (push_line line s) = dataPulses s"
    "next_id (push_line line s) = next_id s + 1"
    using a(1) assms(2) by (simp_all add: push_line_def scene_add_fresh)
  show "nodes (push_line line s) = nodes s" by (rule f(3))
  have b: "ids_below (push_line line s)"
    using fresh unfolding ids_below_def f by (auto simp add: assms(2) less_Suc_eq)
  show "well_formed (push_line line s)"
    unfolding well_formed_def f using assms a b by (simp add: well_formed_def)
qed

lemma createConnections_inner_ok:
  assumes "well_formed s" "i < length (nodes s)" "j < length (nodes s)"
  shows "well_formed (createConnections_inner i j s) \<and>
         nodes (createConnections_inner i j s) = nodes s"
  using assms
  by (simp add: createConnections_inner_def Let_def well_formed_push_line valid_connection_def
      valid_index_def)

lemma fold_inner_ok:
  assumes "well_formed s" "i < length (nodes s)" "\<forall>j \<in> set js. j < length (nodes s)"
  shows "well_formed (fold (createConnections_inner i) js s) \<and>
         nodes (fold (createConnections_inner i) js s) = nodes s"
  using assms
proof (induction js arbitrary: s)
  case Nil
  then show ?case by simp
next
  case (Cons j js)
  from Cons.prems have ok: "well_formed (createConnections_inner i j s)"
    "nodes (createConnections_inner i j s) = nodes s"
    using createConnections_inner_ok [of s i j] by simp_all
  from Cons.IH [of "createConnections_inner i j s"] ok Cons.prems show ?case by simp
qed

lemma createConnections_body_ok:
  assumes "well_formed s" "i < length (nodes s)"
  shows "well_formed (createConnections_body i s) \<and>
         nodes (createConnections_body i s) = nodes s"
proof -
  let ?line = "\<lparr> conn_id = next_id s, nodeIndex = Some i, nodeIndex1 = None,
                  nodeIndex2 = None, toCore = True,
                  points = ((0, 0, 0), position (nodes s ! i)),
                  line_color = cyan (CONFIG s), line_opacity = 0.3 \<rparr>"
  let ?s1 = "if js_less (vec_length (position (nodes s ! i)))
                  (js_times (connectionDistance (CONFIG s)) 1.5)
             then push_line ?line s else s"
  have s1: "well_formed ?s1" "nodes ?s1 = nodes s"
    using assms well_formed_push_line [of s ?line]
    by (simp_all add: valid_connection_def valid_index_def)
  have "well_formed (fold (createConnections_inner i) [i + 1..<length (nodes ?s1)] ?s1) \<and>
        nodes (fold (createConnections_inner i) [i + 1..<length (nodes ?s1)] ?s1) = nodes ?s1"
    using s1 assms(2) by (intro fold_inner_ok) simp_all
  then show ?thesis
    unfolding createConnections_body_def Let_def for1_fold using s1(2) by simp
qed

lemma fold_body_ok:
  assumes "well_formed s" "\<forall>i \<in> set is. i < length (nodes s)"
  shows "well_formed (fold createConnections_body is s) \<and>
         nodes (fold createConnections_body is s) = nodes s"
  using assms
proof (induction "is" arbitrary: s)
  case Nil
  then show ?case by simp
next
  case (Cons i "is")
  from Cons.prems have ok: "well_formed (createConnections_body i s)"
    "nodes (createConnections_body i s) = nodes s"
    using createConnections_body_ok [of s i] by simp_all
  from Cons.IH [of "createConnections_body i s"] ok Cons.prems show ?case by simp
qed

lemma well_formed_createConnections: "well_formed s \<Longrightarrow> well_formed (createConnections s)"
  using fold_body_ok [of s "[0..<length (nodes s)]"]
  by (simp add: createConnections_def for1_fold)

lemma well_formed_switchVisualization:
  assumes "well_formed s"
  shows "well_formed (snd (switchVisualization key s))"
proof (cases "VIZ_PRESETS_get key")
  case Undefined
  then show ?thesis using assms by (simp add: switchVisualization_def)
next
  case Inherited
  then show ?thesis using assms by (simp add: switchVisualization_def Let_def well_formed_globals)
next
  case (Own pr)
  show ?thesis
    unfolding switchVisualization_def Own property.case Let_def snd_conv
    by (intro well_formed_updateLightsForPreset well_formed_createParticlesForPreset
        well_formed_createConnections well_formed_createNodes well_formed_createCoreNode
        well_formed_clearScene well_formed_globals assms)
qed

lemma connectNewNode_body_ok:
  assumes "well_formed s" "i + 1 < length (nodes s)"
  shows "well_formed (connectNewNode_body new pr i s) \<and>
         nodes (connectNewNode_body new pr i s) = nodes s"
  using assms
  by (simp add: connectNewNode_body_def Let_def well_formed_push_line valid_connection_def
      valid_index_def)

lemma fold_connectNewNode_ok:
  assumes "well_formed s" "\<forall>i \<in> set is. i + 1 < length (nodes s)"
  shows "well_formed (fold (connectNewNode_body new pr) is s) \<and>
         nodes (fold (connectNewNode_body new pr) is s) = nodes s"
  using assms
proof (induction "is" arbitrary: s)
  case Nil
  then show ?case by simp
next
  case (Cons i "is")
  from Cons.prems have ok: "well_formed (connectNewNode_body new pr i s)"
    "nodes (connectNewNode_body new pr i s) = nodes s"
    using connectNewNode_body_ok [of s i] by simp_all
  from Cons.IH [of "connectNewNode_body new pr i s"] ok Cons.prems show ?case by simp
qed

lemma well_formed_connectNewNode:
  assumes "well_formed s"
  shows "well_formed (snd (connectNewNode new s))"
proof (cases "VIZ_PRESETS_get (currentViz s)")
  case (Own pr)
  have "\<forall>i \<in> set [0..<length (nodes s) - 1]. i + 1 < length (nodes s)" by auto
  from fold_connectNewNode_ok [OF assms this, of new pr] show ?thesis
    using Own by (simp add: connectNewNode_def for1_fold)
next
  case Undefined
  then show ?thesis using assms by (simp add: connectNewNode_def)
next
  case Inherited
  then show ?thesis using assms by (simp add: connectNewNode_def)
qed

lemma well_formed_addNode:
  assumes "well_formed s"
  shows "well_formed (snd (addNode pos s))"
proof (cases "VIZ_PRESETS_get (currentViz s)")
  case (Own pr)
  from assms have fresh: "ids_below s" by (simp add: well_formed_def)
  then have a: "next_id s \<notin> set (scene s)" "next_id s \<notin> node_id ` set (nodes s)"
    by (auto simp add: ids_below_def)
  have v: "valid_connection (nodes s @ [n]) c" if "c \<in> set (connections s)" for c n
    using assms that valid_connection_grow by (simp add: well_formed_def)
  show ?thesis
    unfolding addNode_def Own property.case Let_def
    apply (rule well_formed_connectNewNode)
    using assms a v fresh
    apply (simp add: well_formed_def ids_below_def scene_add_fresh)
    apply (auto simp add: less_Suc_eq)
    done
next
  case Undefined
  then show ?thesis using assms by (simp add: addNode_def)
next
  case Inherited
  then show ?thesis using assms by (simp add: addNode_def)
qed

lemma well_formed_onCanvasClick:
  "well_formed s \<Longrightarrow> well_formed (snd (onCanvasClick r s))"
  by (simp add: onCanvasClick_def truthy_def Let_def well_formed_addNode
      well_formed_random_used split: prod.splits)

lemma well_formed_deleteNode:
  assumes "well_formed s"
  shows "well_formed (deleteNode n s)"
proof (cases "indexOf (map node_id (nodes s)) (node_id n)")
  case None
  then show ?thesis using assms by (simp add: deleteNode_def)
next
  case (Some k)
  from assms have dn: "distinct (map node_id (nodes s))"
    and dc: "distinct (map conn_id (connections s))" and ds: "distinct (scene s)"
    and v: "\<forall>c \<in> set (connections s). valid_connection (nodes s) c" and b: "ids_below s"
    by (simp_all add: well_formed_def)
  from indexOf_Some [OF Some] have k: "k < length (nodes s)" "node_id (nodes s ! k) = node_id n"
    by auto
  then have same: "deleteNode n s = deleteNode (nodes s ! k) s"
    using Some by (simp add: deleteNode_def Let_def)
  note r = deleteNode_result [OF k(1) dn dc]
  let ?rs = "filter (incident k) (connections s)"
  let ?s1 = "fold remove_connection ?rs s"
  have rest: "scene ?s1 = fold (\<lambda>r. scene_remove (conn_id r)) ?rs (scene s)"
    "dataPulses ?s1 = dataPulses s" "next_id ?s1 = next_id s"
    using fold_remove_connection_rest [of ?rs s] by simp_all
  have sc1: "distinct (scene ?s1)" "set (scene ?s1) \<subseteq> set (scene s)"
    unfolding rest(1) using fold_scene_remove [OF ds, of conn_id ?rs] by auto
  have fields: "scene (deleteNode n s) = scene_remove (node_id n) (scene ?s1)"
    "dataPulses (deleteNode n s) = dataPulses s" "next_id (deleteNode n s) = next_id s"
    by (simp_all add: deleteNode_def Some Let_def rest)
  have sc: "distinct (scene (deleteNode n s))" "set (scene (deleteNode n s)) \<subseteq> set (scene s)"
    unfolding fields(1) using scene_remove_filter [OF sc1(1), of "node_id n"] sc1 by auto
  have ns: "nodes (deleteNode n s) = filter (\<lambda>y. node_id y \<noteq> node_id (nodes s ! k)) (nodes s)"
  proof -
    have "nodes s ! k \<in> set (nodes s)" using k(1) by simp
    then have "node_id (nodes s ! k) \<in> node_id ` set (nodes s)" by blast
    from splice1_indexOf [OF dn this] indexOf_nth [OF dn, of k] k(1)
    show ?thesis unfolding same r(1) by (simp add: splice1_def)
  qed
  have dn': "distinct (map node_id (nodes (deleteNode n s)))"
    unfolding ns using dn by (rule distinct_map_filter)
  have cs: "connections (deleteNode n s) =
              map (update_indices k) (filter (\<lambda>c. \<not> incident k c) (connections s))"
    unfolding same by (rule r(2))
  have ids: "map conn_id (connections (deleteNode n s)) =
             map conn_id (filter (\<lambda>c. \<not> incident k c) (connections s))"
    unfolding cs by (simp add: update_indices_fields comp_def)
  have dc': "distinct (map conn_id (connections (deleteNode n s)))"
    unfolding ids using dc by (rule distinct_map_filter)
  have v': "valid_connection (nodes (deleteNode n s)) c'" if "c' \<in> set (connections (deleteNode n s))" for c'
  proof -
    from that obtain c where c: "c \<in> set (connections s)" "\<not> incident k c"
      "c' = update_indices k c" unfolding cs by auto
    from c(1) v have vi: "valid_index (nodes s) (nodeIndex c)"
      "valid_index (nodes s) (nodeIndex1 c)" "valid_index (nodes s) (nodeIndex2 c)"
      by (auto simp add: valid_connection_def)
    from c(2) have ne: "nodeIndex c \<noteq> Some k" "nodeIndex1 c \<noteq> Some k" "nodeIndex2 c \<noteq> Some k"
      by (simp_all add: incident_def)
    show ?thesis
      unfolding same r(1) c(3) valid_connection_def update_indices_fields
      using same_target_valid [OF same_target_shift [OF k(1) vi(1) ne(1)]]
        same_target_valid [OF same_target_shift [OF k(1) vi(2) ne(2)]]
        same_target_valid [OF same_target_shift [OF k(1) vi(3) ne(3)]] by simp
  qed
  have b': "ids_below (deleteNode n s)"
    using b sc(2) unfolding ids_below_def fields(2,3) ns cs
    by (auto simp add: update_indices_fields)
  show ?thesis
    unfolding well_formed_def fields(2) using sc(1) dn' dc' v' b' assms
    by (simp add: well_formed_def)
qed

lemma well_formed_spawnDataPulse:
  assumes "well_formed s"
  shows "well_formed (snd (spawnDataPulse s))"
proof -
  from assms have fresh: "ids_below s" by (simp add: well_formed_def)
  then have a: "next_id s \<notin> set (scene s)" "next_id s \<notin> pulse_id ` set (dataPulses s)"
    by (auto simp add: ids_below_def)
  show ?thesis
    using assms a fresh
    by (auto simp add: spawnDataPulse_def Let_def well_formed_def ids_below_def scene_add_fresh
        less_Suc_eq split: property.splits)
qed

lemma well_formed_animateDataPulses:
  assumes "well_formed s"
  shows "well_formed (animateDataPulses s)"
proof -
  from assms have dp: "distinct (map pulse_id (dataPulses s))" and ds: "distinct (scene s)"
    and b: "ids_below s" by (simp_all add: well_formed_def)
  let ?ps = "map advance_pulse (dataPulses s)"
  let ?s1 = "s\<lparr> dataPulses := ?ps \<rparr>"
  let ?rs = "filter (\<lambda>p. progress p \<ge> 1) ?ps"
  have ids: "map pulse_id ?ps = map pulse_id (dataPulses s)"
    by (simp add: advance_pulse_fields comp_def)
  have d0: "distinct (map pulse_id ?ps)" unfolding ids by (rule dp)
  have ps1: "dataPulses ?s1 = ?ps" by simp
  have d: "distinct (map pulse_id (dataPulses ?s1))" unfolding ps1 by (rule d0)
  have drs: "distinct (map pulse_id ?rs)" using d0 by (rule distinct_map_filter)
  have sub: "pulse_id ` set ?rs \<subseteq> pulse_id ` set (dataPulses ?s1)" unfolding ps1 by auto
  have sc: "distinct (scene ?s1)" using ds by simp
  have run: "animateDataPulses s = fold remove_pulse ?rs ?s1"
    by (simp add: animateDataPulses_def Let_def)
  note f = fold_remove_pulse [OF d drs sub sc]
  note g = fold_remove_pulse_rest [of ?rs ?s1]
  have dps: "distinct (map pulse_id (dataPulses (animateDataPulses s)))"
    unfolding run using f d0 by (simp add: distinct_map_filter)
  have below: "ids_below (animateDataPulses s)"
    unfolding run ids_below_def using f g b
    by (auto simp add: ids_below_def advance_pulse_fields)
  show ?thesis
    unfolding well_formed_def using dps below f g assms unfolding run
    by (simp add: well_formed_def)
qed

lemma well_formed_three_nodes: "well_formed three_nodes"
  by (simp add: well_formed_def ids_below_def three_nodes_def node_at_def core_line_def
      node_line_def pulse_at_def valid_connection_def valid_index_def)

lemma well_formed_hypotheses:
  assumes "well_formed s"
  shows "distinct (map node_id (nodes s))" and "distinct (map conn_id (connections s))"
    and "\<forall>c \<in> set (connections s). valid_connection (nodes s) c"
    and "distinct (map pulse_id (dataPulses s))" and "distinct (scene s)"
  using assms by (simp_all add: well_formed_def)

end
